theory Spec2Isabelle
  imports Main "HOL-Library.Word" "HOL-Library.Monad_Syntax"
begin

section \<open>The alarm service of osi/src/alarm.c\<close>

text \<open>
  A shallow embedding of the alarm engine: the pending list, the scheduling of the next
  instance of an alarm, the wake policy (\<open>reschedule_root_alarm\<close>), the dispatcher's
  wake-up, the worker-queue handler and the public operations \<open>alarm_set\<close>,
  \<open>alarm_cancel\<close>, \<open>alarm_free\<close>, \<open>alarm_is_scheduled\<close> and \<open>alarm_cleanup\<close>.

  Every function below is the code that runs while the monitor is held, so each one is an
  atomic step on the state. A failed \<open>assert\<close> aborts the process: the functions return
  \<open>None\<close> there. What the operating system answers (the clock, the wake-lock callout, the
  wake-alarm callout, the read-back of the timer) is an argument of the function that asks.
\<close>

subsection \<open>Data\<close>

text \<open>\<open>period_ms_t\<close> is \<open>uint64_t\<close>; \<open>size_t\<close> is taken as 64 bits wide (LP64).\<close>

type_synonym period_ms_t = "64 word"
type_synonym size_t = "64 word"

text \<open>Pointers are addresses; a pointer that may be \<open>NULL\<close> is an \<open>option\<close>.\<close>

type_synonym alarm_ptr = nat
type_synonym queue_ptr = nat
type_synonym callback_ptr = nat
type_synonym data_ptr = nat

text \<open>
  The counters of \<open>alarm_stats_t\<close> that the scheduling code writes. Its other fields
  (\<open>name\<close>, \<open>total_updates\<close>, \<open>last_update_ms\<close> and the three \<open>stat_t\<close> aggregates) are only
  written after the callback has returned and are left out.
\<close>

record alarm_stats_t =
  scheduled_count :: size_t
  canceled_count :: size_t
  rescheduled_count :: size_t

text \<open>\<open>struct alarm_t\<close>, without its \<open>callback_lock\<close>.\<close>

record alarm_t =
  creation_time :: period_ms_t
  period :: period_ms_t
  deadline :: period_ms_t
  prev_deadline :: period_ms_t
  is_periodic :: bool
  queue :: "queue_ptr option"
  callback :: "callback_ptr option"
  data :: "data_ptr option"
  stats :: alarm_stats_t

text \<open>The \<open>it_value\<close> of a \<open>struct itimerspec\<close>; its \<open>it_interval\<close> is always zero here.\<close>

record itimerspec =
  tv_sec :: "64 word"
  tv_nsec :: "64 word"

text \<open>
  What \<open>clock_gettime(CLOCK_BOOTTIME)\<close> answers: \<open>None\<close> when it fails, else the seconds and
  nanoseconds since boot.
\<close>

type_synonym clock_reading = "(nat \<times> nat) option"

text \<open>The answers of the operating system to one call of \<open>reschedule_root_alarm\<close>.\<close>

record os_env =
  clock :: clock_reading
  acquire_status :: int
  set_wake_alarm_ok :: bool
  timer_gettime_zero :: bool

text \<open>
  The calls that one run of \<open>reschedule_root_alarm\<close> makes: the status that
  \<open>acquire_wake_lock\<close> returned when it was called, the delay passed to \<open>set_wake_alarm\<close> and
  its answer when it was called, whether \<open>release_wake_lock\<close> was called, the time passed to
  \<open>timer_settime\<close>, and whether \<open>alarm_expired\<close> was posted.
\<close>

record reeval =
  acquired :: "int option"
  wake_alarm :: "(64 word \<times> bool) option"
  released :: bool
  armed :: itimerspec
  posted :: bool

text \<open>
  The globals of alarm.c. \<open>alarms\<close> is \<open>None\<close> while the list pointer is \<open>NULL\<close>. \<open>heap\<close> holds
  the alarm records by address, \<open>freed\<close> the addresses given back by \<open>alarm_free\<close>, \<open>queues\<close>
  the contents of the fixed queues by address, \<open>timer\<close> the time last programmed into the
  POSIX timer, \<open>alarm_expired\<close> the value of the semaphore and \<open>reevals\<close> the calls made by
  every run of \<open>reschedule_root_alarm\<close> so far, oldest first.
\<close>

record alarm_state =
  alarms :: "alarm_ptr list option"
  heap :: "alarm_ptr \<Rightarrow> alarm_t"
  freed :: "alarm_ptr list"
  queues :: "queue_ptr \<Rightarrow> alarm_ptr list"
  timer :: itimerspec
  timer_set :: bool
  dispatcher_thread_active :: bool
  alarm_expired :: nat
  default_callback_queue :: "queue_ptr option"
  TIMER_INTERVAL_FOR_WAKELOCK_IN_MS :: "64 word"
  reevals :: "reeval list"

text \<open>
  What the worker-queue handler hands to the user's code: the alarm, the callback and data
  it captured, and the deadline it will report to the statistics.
\<close>

record invocation =
  inv_alarm :: alarm_ptr
  inv_callback :: "callback_ptr option"
  inv_data :: "data_ptr option"
  inv_deadline :: period_ms_t

subsection \<open>Collaborators\<close>

text \<open>
  \<open>BT_STATUS_SUCCESS\<close> is the first enumerator of \<open>bt_status_t\<close> in hardware/bluetooth.h, which
  is not among the sources.
\<close>

definition BT_STATUS_SUCCESS :: int where
  "BT_STATUS_SUCCESS = 0"

text \<open>
  The list of osi/include/list.h, which is not among the sources, on a list that is not
  \<open>NULL\<close>: \<open>list_remove\<close> removes the first instance only, \<open>list_front\<close> is called on
  non-empty lists only.
\<close>

definition list_is_empty :: "alarm_ptr list \<Rightarrow> bool" where
  "list_is_empty l = (l = [])"

definition list_front :: "alarm_ptr list \<Rightarrow> alarm_ptr" where
  "list_front l = hd l"

definition list_prepend :: "alarm_ptr list \<Rightarrow> alarm_ptr \<Rightarrow> alarm_ptr list" where
  "list_prepend l a = a # l"

definition list_remove :: "alarm_ptr list \<Rightarrow> alarm_ptr \<Rightarrow> alarm_ptr list" where
  "list_remove l a = remove1 a l"

text \<open>
  The queue of osi/include/fixed_queue.h, which is not among the sources:
  \<open>fixed_queue_try_remove_from_queue\<close> answers \<open>NULL\<close> for a \<open>NULL\<close> queue and for an item that
  is not queued, and removes one instance otherwise; \<open>fixed_queue_enqueue\<close> asserts that the
  queue is not \<open>NULL\<close>.
\<close>

definition fixed_queue_try_remove_from_queue ::
    "queue_ptr option \<Rightarrow> alarm_ptr \<Rightarrow> (queue_ptr \<Rightarrow> alarm_ptr list)
      \<Rightarrow> alarm_ptr option \<times> (queue_ptr \<Rightarrow> alarm_ptr list)" where
  "fixed_queue_try_remove_from_queue q a qs =
     (case q of
        None \<Rightarrow> (None, qs)
      | Some k \<Rightarrow>
          if a \<in> set (qs k) then (Some a, qs(k := remove1 a (qs k))) else (None, qs))"

definition fixed_queue_try_dequeue ::
    "queue_ptr \<Rightarrow> (queue_ptr \<Rightarrow> alarm_ptr list)
      \<Rightarrow> alarm_ptr option \<times> (queue_ptr \<Rightarrow> alarm_ptr list)" where
  "fixed_queue_try_dequeue k qs =
     (case qs k of [] \<Rightarrow> (None, qs) | a # rest \<Rightarrow> (Some a, qs(k := rest)))"

definition fixed_queue_enqueue ::
    "queue_ptr option \<Rightarrow> alarm_ptr \<Rightarrow> (queue_ptr \<Rightarrow> alarm_ptr list)
      \<Rightarrow> (queue_ptr \<Rightarrow> alarm_ptr list) option" where
  "fixed_queue_enqueue q a qs =
     (case q of None \<Rightarrow> None | Some k \<Rightarrow> Some (qs(k := qs k @ [a])))"

subsection \<open>The clock\<close>

definition clock_ms :: "clock_reading \<Rightarrow> period_ms_t" where
  "clock_ms c =
     (case c of
        None \<Rightarrow> 0
      | Some (sec, nsec) \<Rightarrow> of_nat (sec * 1000 + nsec div 1000000))"

definition now :: "clock_reading \<Rightarrow> alarm_state \<Rightarrow> period_ms_t option" where
  "now c s = (if alarms s = None then None else Some (clock_ms c))"

subsection \<open>The wake policy\<close>

definition zero_time :: itimerspec where
  "zero_time = \<lparr>tv_sec = 0, tv_nsec = 0\<rparr>"

text \<open>Lines 457 and 458: the absolute time of a deadline.\<close>

definition wakeup_time_of :: "period_ms_t \<Rightarrow> itimerspec" where
  "wakeup_time_of d = \<lparr>tv_sec = d div 1000, tv_nsec = (d mod 1000) * 1000000\<rparr>"

text \<open>
  The part of \<open>reschedule_root_alarm\<close> before the label \<open>done\<close>: the time to arm, the status of
  \<open>acquire_wake_lock\<close> if it was called, and the call of \<open>set_wake_alarm\<close> if it was made.
  \<open>next_expiration\<close> is an \<open>int64_t\<close> and so is the threshold: the comparison is signed.
\<close>

definition wake_policy ::
    "os_env \<Rightarrow> alarm_state \<Rightarrow> alarm_ptr list
      \<Rightarrow> (itimerspec \<times> int option \<times> (64 word \<times> bool) option) option" where
  "wake_policy e s l =
     (if list_is_empty l then Some (zero_time, None, None)
      else do {
        let next = heap s (list_front l);
        just_now \<leftarrow> now (clock e) s;
        let next_expiration = deadline next - just_now;
        if sint next_expiration < sint (TIMER_INTERVAL_FOR_WAKELOCK_IN_MS s) then
          if \<not> timer_set s then
            if acquire_status e \<noteq> BT_STATUS_SUCCESS
            then Some (zero_time, Some (acquire_status e), None)
            else Some (wakeup_time_of (deadline next), Some (acquire_status e), None)
          else Some (wakeup_time_of (deadline next), None, None)
        else Some (zero_time, None, Some (next_expiration, set_wake_alarm_ok e))
      })"

definition reschedule_root_alarm :: "os_env \<Rightarrow> alarm_state \<Rightarrow> alarm_state option" where
  "reschedule_root_alarm e s =
     (case alarms s of
        None \<Rightarrow> None
      | Some l \<Rightarrow> do {
          let timer_was_set = timer_set s;
          (wakeup_time, acq, wk) \<leftarrow> wake_policy e s l;
          let now_set = (tv_sec wakeup_time \<noteq> 0 \<or> tv_nsec wakeup_time \<noteq> 0);
          let rel = (timer_was_set \<and> \<not> now_set);
          let post = (now_set \<and> timer_gettime_zero e);
          Some (s\<lparr>timer := wakeup_time,
                  timer_set := now_set,
                  alarm_expired := alarm_expired s + (if post then 1 else 0),
                  reevals := reevals s @
                    [\<lparr>acquired = acq, wake_alarm = wk, released = rel,
                      armed = wakeup_time, posted = post\<rparr>]\<rparr>)
        })"

text \<open>
  A state has a timer path armed when the in-process timer is programmed with a time other
  than zero, or the last run of \<open>reschedule_root_alarm\<close> asked for a wake alarm.
\<close>

definition arms_timer_path :: "alarm_state \<Rightarrow> bool" where
  "arms_timer_path s =
     (timer s \<noteq> zero_time \<or> (reevals s \<noteq> [] \<and> wake_alarm (last (reevals s)) \<noteq> None))"

subsection \<open>Scheduling the next instance\<close>

text \<open>The loop of \<open>remove_pending_alarm\<close>: it removes the alarm until the queue has none.\<close>

function remove_queued_instances ::
    "queue_ptr option \<Rightarrow> alarm_ptr \<Rightarrow> (queue_ptr \<Rightarrow> alarm_ptr list)
      \<Rightarrow> (queue_ptr \<Rightarrow> alarm_ptr list)" where
  "remove_queued_instances q a qs =
     (case fixed_queue_try_remove_from_queue q a qs of
        (None, qs') \<Rightarrow> qs'
      | (Some r, qs') \<Rightarrow> remove_queued_instances q a qs')"
  by pat_completeness auto
termination
proof (relation "measure (\<lambda>(q, a, qs). case q of None \<Rightarrow> 0 | Some k \<Rightarrow> length (qs k))", goal_cases)
  case 1
  show ?case by simp
next
  case (2 q a qs x qs' r)
  then have step: "fixed_queue_try_remove_from_queue q a qs = (Some r, qs')"
    by simp
  then obtain k where k: "q = Some k" "a \<in> set (qs k)" "qs' = qs(k := remove1 a (qs k))"
    by (auto simp: fixed_queue_try_remove_from_queue_def split: option.splits if_splits)
  from k(2) have "length (remove1 a (qs k)) < length (qs k)"
    using length_pos_if_in_set [of a "qs k"] by (simp add: length_remove1)
  with k show ?case
    by simp
qed

declare remove_queued_instances.simps [simp del]

definition remove_pending_alarm :: "alarm_ptr \<Rightarrow> alarm_state \<Rightarrow> alarm_state option" where
  "remove_pending_alarm a s =
     (case alarms s of
        None \<Rightarrow> None
      | Some l \<Rightarrow>
          Some (s\<lparr>alarms := Some (list_remove l a),
                  queues := remove_queued_instances (queue (heap s a)) a (queues s)\<rparr>))"

text \<open>Lines 407 to 411: the next deadline of an alarm, read at \<open>just_now\<close>.\<close>

definition next_deadline :: "period_ms_t \<Rightarrow> alarm_t \<Rightarrow> period_ms_t" where
  "next_deadline just_now A =
     (let ms_into_period =
            (if is_periodic A \<and> period A \<noteq> 0
             then (just_now - creation_time A) mod period A
             else 0)
      in just_now + (period A - ms_into_period))"

text \<open>
  The \<open>for\<close> loop of lines 418 to 424, on a list that is not empty: the alarm goes behind the
  first node whose successor is the end of the list or has a later deadline.
\<close>

fun insert_after_node ::
    "(alarm_ptr \<Rightarrow> alarm_t) \<Rightarrow> alarm_ptr \<Rightarrow> alarm_ptr list \<Rightarrow> alarm_ptr list" where
  "insert_after_node h a [] = []"
| "insert_after_node h a [node] = [node, a]"
| "insert_after_node h a (node # next # rest) =
     (if deadline (h next) > deadline (h a) then node # a # next # rest
      else node # insert_after_node h a (next # rest))"

text \<open>Lines 414 to 425.\<close>

definition insert_by_deadline ::
    "(alarm_ptr \<Rightarrow> alarm_t) \<Rightarrow> alarm_ptr \<Rightarrow> alarm_ptr list \<Rightarrow> alarm_ptr list" where
  "insert_by_deadline h a l =
     (if list_is_empty l \<or> deadline (h (list_front l)) > deadline (h a)
      then list_prepend l a
      else insert_after_node h a l)"

definition schedule_next_instance ::
    "clock_reading \<Rightarrow> os_env \<Rightarrow> alarm_ptr \<Rightarrow> alarm_state \<Rightarrow> alarm_state option" where
  "schedule_next_instance c e a s =
     (case alarms s of
        None \<Rightarrow> None
      | Some l0 \<Rightarrow> do {
          let needs_reschedule = (\<not> list_is_empty l0 \<and> list_front l0 = a);
          s1 \<leftarrow> (if callback (heap s a) \<noteq> None then remove_pending_alarm a s else Some s);
          just_now \<leftarrow> now c s1;
          let h = (heap s1)(a := (heap s1 a)\<lparr>deadline := next_deadline just_now (heap s1 a)\<rparr>);
          l1 \<leftarrow> alarms s1;
          let l2 = insert_by_deadline h a l1;
          let s2 = s1\<lparr>heap := h, alarms := Some l2\<rparr>;
          if needs_reschedule \<or> (\<not> list_is_empty l2 \<and> list_front l2 = a)
          then reschedule_root_alarm e s2
          else Some s2
        })"

text \<open>
  The order of the pending list: of any two adjacent entries the first has the earlier or
  the same deadline.
\<close>

fun pending_sorted :: "(alarm_ptr \<Rightarrow> alarm_t) \<Rightarrow> alarm_ptr list \<Rightarrow> bool" where
  "pending_sorted h [] = True"
| "pending_sorted h [a] = True"
| "pending_sorted h (a # b # l) = (deadline (h a) \<le> deadline (h b) \<and> pending_sorted h (b # l))"

subsection \<open>Setting and cancelling\<close>

definition bump_scheduled :: "alarm_t \<Rightarrow> alarm_t" where
  "bump_scheduled A = A\<lparr>stats := (stats A)\<lparr>scheduled_count := scheduled_count (stats A) + 1\<rparr>\<rparr>"

definition alarm_set_internal ::
    "clock_reading \<Rightarrow> clock_reading \<Rightarrow> os_env \<Rightarrow> alarm_ptr option \<Rightarrow> period_ms_t
      \<Rightarrow> callback_ptr option \<Rightarrow> data_ptr option \<Rightarrow> queue_ptr option
      \<Rightarrow> alarm_state \<Rightarrow> alarm_state option" where
  "alarm_set_internal c0 c1 e alarm per cb dat q s =
     (if alarms s = None \<or> alarm = None \<or> cb = None then None
      else do {
        a \<leftarrow> alarm;
        t \<leftarrow> now c0 s;
        let s1 = s\<lparr>heap := (heap s)(a := (heap s a)\<lparr>creation_time := t, period := per,
                       queue := q, callback := cb, data := dat\<rparr>)\<rparr>;
        s2 \<leftarrow> schedule_next_instance c1 e a s1;
        Some (s2\<lparr>heap := (heap s2)(a := bump_scheduled (heap s2 a))\<rparr>)
      })"

definition alarm_set_on_queue ::
    "clock_reading \<Rightarrow> clock_reading \<Rightarrow> os_env \<Rightarrow> alarm_ptr option \<Rightarrow> period_ms_t
      \<Rightarrow> callback_ptr option \<Rightarrow> data_ptr option \<Rightarrow> queue_ptr option
      \<Rightarrow> alarm_state \<Rightarrow> alarm_state option" where
  "alarm_set_on_queue c0 c1 e alarm interval_ms cb dat q s =
     (if q = None then None else alarm_set_internal c0 c1 e alarm interval_ms cb dat q s)"

definition alarm_set ::
    "clock_reading \<Rightarrow> clock_reading \<Rightarrow> os_env \<Rightarrow> alarm_ptr option \<Rightarrow> period_ms_t
      \<Rightarrow> callback_ptr option \<Rightarrow> data_ptr option \<Rightarrow> alarm_state \<Rightarrow> alarm_state option" where
  "alarm_set c0 c1 e alarm interval_ms cb dat s =
     alarm_set_on_queue c0 c1 e alarm interval_ms cb dat (default_callback_queue s) s"

text \<open>Lines 269 to 274: the fields that a cancel clears.\<close>

definition cancel_fields :: "alarm_t \<Rightarrow> alarm_t" where
  "cancel_fields A =
     A\<lparr>deadline := 0, prev_deadline := 0, callback := None, data := None,
       stats := (stats A)\<lparr>canceled_count := canceled_count (stats A) + 1\<rparr>,
       queue := None\<rparr>"

definition alarm_cancel_internal :: "os_env \<Rightarrow> alarm_ptr \<Rightarrow> alarm_state \<Rightarrow> alarm_state option" where
  "alarm_cancel_internal e a s =
     (case alarms s of
        None \<Rightarrow> None
      | Some l \<Rightarrow> do {
          let needs_reschedule = (\<not> list_is_empty l \<and> list_front l = a);
          s1 \<leftarrow> remove_pending_alarm a s;
          let s2 = s1\<lparr>heap := (heap s1)(a := cancel_fields (heap s1 a))\<rparr>;
          if needs_reschedule then reschedule_root_alarm e s2 else Some s2
        })"

text \<open>
  \<open>alarm_cancel\<close> up to the release of the monitor; after it the caller takes and gives back
  the alarm's \<open>callback_lock\<close>, which changes none of the state below.
\<close>

definition alarm_cancel :: "os_env \<Rightarrow> alarm_ptr option \<Rightarrow> alarm_state \<Rightarrow> alarm_state option" where
  "alarm_cancel e alarm s =
     (if alarms s = None then None
      else case alarm of
             None \<Rightarrow> Some s
           | Some a \<Rightarrow> alarm_cancel_internal e a s)"

definition alarm_free :: "os_env \<Rightarrow> alarm_ptr option \<Rightarrow> alarm_state \<Rightarrow> alarm_state option" where
  "alarm_free e alarm s =
     (case alarm of
        None \<Rightarrow> Some s
      | Some a \<Rightarrow> do {
          s1 \<leftarrow> alarm_cancel e (Some a) s;
          Some (s1\<lparr>freed := a # freed s1\<rparr>)
        })"

definition alarm_is_scheduled :: "alarm_ptr option \<Rightarrow> alarm_state \<Rightarrow> bool" where
  "alarm_is_scheduled alarm s =
     (case alarm of
        None \<Rightarrow> False
      | Some a \<Rightarrow> if alarms s = None then False else callback (heap s a) \<noteq> None)"

text \<open>
  \<open>alarm_cleanup\<close>: it stops the dispatcher, frees the default queue, deletes the timer (which
  disarms it), frees the semaphore and the list. It calls neither \<open>release_wake_lock\<close> nor
  \<open>reschedule_root_alarm\<close>, and it does not write \<open>timer_set\<close>.
\<close>

definition alarm_cleanup :: "alarm_state \<Rightarrow> alarm_state" where
  "alarm_cleanup s =
     (case alarms s of
        None \<Rightarrow> s
      | Some l \<Rightarrow>
          s\<lparr>dispatcher_thread_active := False,
            queues := (case default_callback_queue s of
                         None \<Rightarrow> queues s
                       | Some k \<Rightarrow> (queues s)(k := [])),
            default_callback_queue := None,
            timer := zero_time,
            alarm_expired := 0,
            alarms := None\<rparr>)"

subsection \<open>The dispatcher\<close>

text \<open>\<open>timer_callback\<close>: the expiration signal of either timer.\<close>

definition timer_callback :: "alarm_state \<Rightarrow> alarm_state" where
  "timer_callback s = s\<lparr>alarm_expired := alarm_expired s + 1\<rparr>"

definition bump_rescheduled :: "alarm_t \<Rightarrow> alarm_t" where
  "bump_rescheduled A =
     A\<lparr>stats := (stats A)\<lparr>rescheduled_count := rescheduled_count (stats A) + 1\<rparr>\<rparr>"

text \<open>
  What one wake-up of the dispatcher needs from the operating system: the clock read by the
  test of line 589, the clock and answers for \<open>schedule_next_instance\<close>, and the answers for
  the call of \<open>reschedule_root_alarm\<close> on its own.
\<close>

record dispatch_env =
  check_clock :: clock_reading
  sched_clock :: clock_reading
  sched_env :: os_env
  root_env :: os_env

text \<open>
  The body of the loop of \<open>callback_dispatch\<close> from line 581 on, with the monitor held: one
  wake-up of a dispatcher that is active.
\<close>

definition dispatch_wakeup :: "dispatch_env \<Rightarrow> alarm_state \<Rightarrow> alarm_state option" where
  "dispatch_wakeup w s =
     (case alarms s of
        None \<Rightarrow> None
      | Some l \<Rightarrow>
          if list_is_empty l
             \<or> deadline (heap s (list_front l)) > clock_ms (check_clock w)
          then reschedule_root_alarm (root_env w) s
          else do {
            let a = list_front l;
            let s1 = s\<lparr>alarms := Some (list_remove l a)\<rparr>;
            s2 \<leftarrow> (if is_periodic (heap s1 a) then do {
                     let s1' = s1\<lparr>heap := (heap s1)(a := (heap s1 a)
                                    \<lparr>prev_deadline := deadline (heap s1 a)\<rparr>)\<rparr>;
                     s1'' \<leftarrow> schedule_next_instance (sched_clock w) (sched_env w) a s1';
                     Some (s1''\<lparr>heap := (heap s1'')(a := bump_rescheduled (heap s1'' a))\<rparr>)
                   } else Some s1);
            s3 \<leftarrow> reschedule_root_alarm (root_env w) s2;
            qs \<leftarrow> fixed_queue_enqueue (queue (heap s3 a)) a (queues s3);
            Some (s3\<lparr>queues := qs\<rparr>)
          })"

text \<open>
  \<open>callback_dispatch\<close>: the loop runs once for every expiration signal it can take. With the
  semaphore at zero the thread is blocked and the state is as it is; the list holds what the
  operating system answers at each wake-up, and the loop stops with it.
\<close>

fun callback_dispatch :: "dispatch_env list \<Rightarrow> alarm_state \<Rightarrow> alarm_state option" where
  "callback_dispatch [] s = Some s"
| "callback_dispatch (w # ws) s =
     (if alarm_expired s = 0 then Some s
      else let s0 = s\<lparr>alarm_expired := alarm_expired s - 1\<rparr>
           in if \<not> dispatcher_thread_active s0 then Some s0
              else case dispatch_wakeup w s0 of
                     None \<Rightarrow> None
                   | Some s' \<Rightarrow> callback_dispatch ws s')"

subsection \<open>The worker-queue handler\<close>

text \<open>
  \<open>alarm_queue_ready\<close> up to the release of the monitor at line 552: the state the callback
  will find, and what the handler then invokes (nothing when the queue was empty).
\<close>

definition alarm_queue_ready ::
    "queue_ptr option \<Rightarrow> alarm_state \<Rightarrow> (alarm_state \<times> invocation option) option" where
  "alarm_queue_ready q s =
     (case q of
        None \<Rightarrow> None
      | Some k \<Rightarrow>
          (case fixed_queue_try_dequeue k (queues s) of
             (None, qs) \<Rightarrow> Some (s\<lparr>queues := qs\<rparr>, None)
           | (Some a, qs) \<Rightarrow>
               let A = heap s a;
                   inv = \<lparr>inv_alarm = a, inv_callback = callback A, inv_data = data A,
                          inv_deadline = (if is_periodic A then prev_deadline A
                                          else deadline A)\<rparr>;
                   h = (if is_periodic A then heap s
                        else (heap s)(a := A\<lparr>deadline := 0, callback := None,
                                               data := None\<rparr>))
               in Some (s\<lparr>queues := qs, heap := h\<rparr>, Some inv)))"

subsection \<open>Runs of the service and the wake lock\<close>

text \<open>
  The operations that reach the alarm engine while it is initialized: \<open>alarm_set_on_queue\<close>
  with its arguments and the answers of the operating system, \<open>alarm_cancel\<close>, a post of the
  expiration signal by either timer, one turn of the dispatcher's loop, and the handler of a
  worker queue up to the call of the callback.
\<close>

datatype alarm_op =
    Set alarm_ptr period_ms_t callback_ptr "data_ptr option" queue_ptr
        clock_reading clock_reading os_env
  | Cancel alarm_ptr os_env
  | Expire
  | Dispatch dispatch_env
  | QueueReady queue_ptr

fun step :: "alarm_op \<Rightarrow> alarm_state \<Rightarrow> alarm_state option" where
  "step (Set a per cb dat q c0 c1 e) s =
     alarm_set_on_queue c0 c1 e (Some a) per (Some cb) dat (Some q) s"
| "step (Cancel a e) s = alarm_cancel e (Some a) s"
| "step Expire s = Some (timer_callback s)"
| "step (Dispatch w) s = callback_dispatch [w] s"
| "step (QueueReady q) s = map_option fst (alarm_queue_ready (Some q) s)"

text \<open>A run stops where an assertion fails.\<close>

fun run :: "alarm_op list \<Rightarrow> alarm_state \<Rightarrow> alarm_state option" where
  "run [] s = Some s"
| "run (x # xs) s = (case step x s of None \<Rightarrow> None | Some s' \<Rightarrow> run xs s')"

text \<open>
  The calls of \<open>acquire_wake_lock\<close> and of \<open>release_wake_lock\<close> so far; the calls of
  \<open>acquire_wake_lock\<close> that returned \<open>BT_STATUS_SUCCESS\<close> and those that did not; and the
  granted calls after which the same run of \<open>reschedule_root_alarm\<close> programmed the timer
  with zero.
\<close>

definition acquire_calls :: "alarm_state \<Rightarrow> nat" where
  "acquire_calls s = length (filter (\<lambda>r. acquired r \<noteq> None) (reevals s))"

definition release_calls :: "alarm_state \<Rightarrow> nat" where
  "release_calls s = length (filter released (reevals s))"

definition granted_acquires :: "alarm_state \<Rightarrow> nat" where
  "granted_acquires s =
     length (filter (\<lambda>r. acquired r = Some BT_STATUS_SUCCESS) (reevals s))"

definition failed_acquires :: "alarm_state \<Rightarrow> nat" where
  "failed_acquires s =
     length (filter (\<lambda>r. acquired r \<noteq> None \<and> acquired r \<noteq> Some BT_STATUS_SUCCESS)
               (reevals s))"

definition unarmed_grants :: "alarm_state \<Rightarrow> nat" where
  "unarmed_grants s =
     length (filter (\<lambda>r. acquired r = Some BT_STATUS_SUCCESS \<and> armed r = zero_time)
               (reevals s))"

text \<open>
  The account of the wake lock: every granted call of \<open>acquire_wake_lock\<close> has been answered
  by a call of \<open>release_wake_lock\<close>, or left the timer unarmed, or is the one that
  \<open>timer_set\<close> records; and \<open>timer_set\<close> is false while the pending list is empty.
\<close>

definition wake_lock_accounted :: "alarm_state \<Rightarrow> bool" where
  "wake_lock_accounted s =
     (granted_acquires s = release_calls s + unarmed_grants s + (if timer_set s then 1 else 0))"

definition idle_unlocked :: "alarm_state \<Rightarrow> bool" where
  "idle_unlocked s = (alarms s = Some [] \<longrightarrow> \<not> timer_set s)"

text \<open>The deadlines along the pending list, and whether the list of a state is in order.\<close>

definition pending_deadlines :: "alarm_state \<Rightarrow> period_ms_t list" where
  "pending_deadlines s =
     (case alarms s of None \<Rightarrow> [] | Some l \<Rightarrow> map (\<lambda>a. deadline (heap s a)) l)"

definition pending_list_sorted :: "alarm_state \<Rightarrow> bool" where
  "pending_list_sorted s =
     (case alarms s of None \<Rightarrow> True | Some l \<Rightarrow> pending_sorted (heap s) l)"

subsection \<open>States and answers for the examples\<close>

text \<open>An alarm record as \<open>osi_calloc\<close> returns it.\<close>

definition zeroed_alarm :: alarm_t where
  "zeroed_alarm =
     \<lparr>creation_time = 0, period = 0, deadline = 0, prev_deadline = 0, is_periodic = False,
      queue = None, callback = None, data = None,
      stats = \<lparr>scheduled_count = 0, canceled_count = 0, rescheduled_count = 0\<rparr>\<rparr>"

text \<open>The globals before \<open>lazy_initialize\<close> has run.\<close>

definition uninitialized_state :: alarm_state where
  "uninitialized_state =
     \<lparr>alarms = None, heap = (\<lambda>a. zeroed_alarm), freed = [], queues = (\<lambda>k. []),
      timer = zero_time, timer_set = False, dispatcher_thread_active = False,
      alarm_expired = 0, default_callback_queue = None,
      TIMER_INTERVAL_FOR_WAKELOCK_IN_MS = 3000, reevals = []\<rparr>"

text \<open>
  The globals as a successful \<open>lazy_initialize\<close> leaves them, with the default queue at
  address 0.
\<close>

definition initialized_state :: alarm_state where
  "initialized_state =
     uninitialized_state\<lparr>alarms := Some [], dispatcher_thread_active := True,
       default_callback_queue := Some 0\<rparr>"

text \<open>A clock that reads \<open>n\<close> milliseconds since boot.\<close>

definition at_ms :: "nat \<Rightarrow> clock_reading" where
  "at_ms n = Some (n div 1000, (n mod 1000) * 1000000)"

text \<open>An operating system that grants every request, and one that refuses the wake lock.\<close>

definition os_ok :: "nat \<Rightarrow> os_env" where
  "os_ok n =
     \<lparr>clock = at_ms n, acquire_status = BT_STATUS_SUCCESS, set_wake_alarm_ok = True,
      timer_gettime_zero = False\<rparr>"

definition os_no_lock :: "nat \<Rightarrow> os_env" where
  "os_no_lock n = (os_ok n)\<lparr>acquire_status := 1\<rparr>"

text \<open>An alarm set with callback 7 on queue 0.\<close>

definition armed_alarm :: "bool \<Rightarrow> period_ms_t \<Rightarrow> period_ms_t \<Rightarrow> period_ms_t \<Rightarrow> alarm_t" where
  "armed_alarm per created p d =
     zeroed_alarm\<lparr>creation_time := created, period := p, deadline := d, is_periodic := per,
       queue := Some 0, callback := Some 7, data := Some 9\<rparr>"

text \<open>An initialized service whose pending list holds the alarms of \<open>l\<close> in heap \<open>h\<close>.\<close>

definition pending_state :: "alarm_ptr list \<Rightarrow> (alarm_ptr \<Rightarrow> alarm_t) \<Rightarrow> alarm_state" where
  "pending_state l h = initialized_state\<lparr>alarms := Some l, heap := h\<rparr>"

text \<open>A heap in which every address holds the record \<open>A\<close>.\<close>

definition all_alarms :: "alarm_t \<Rightarrow> alarm_ptr \<Rightarrow> alarm_t" where
  "all_alarms A a = A"

text \<open>A heap that holds the listed records at the listed addresses.\<close>

definition heap_of :: "(alarm_ptr \<times> alarm_t) list \<Rightarrow> alarm_ptr \<Rightarrow> alarm_t" where
  "heap_of l a = (case map_of l a of None \<Rightarrow> zeroed_alarm | Some A \<Rightarrow> A)"

text \<open>
  A run through the public operations: two one-shot alarms are set on queue 0 at 0 ms, for
  100 ms and 150 ms; the timer expires and the dispatcher, at 100 ms, hands alarm 1 to queue
  0; alarm 1 is set again for 100 ms, now on queue 1; the handler of queue 0 runs; alarm 3
  is set for 10 ms.
\<close>

definition stale_copy_run :: "alarm_op list" where
  "stale_copy_run =
     [Set 1 100 7 None 0 (at_ms 0) (at_ms 0) (os_ok 0),
      Set 2 150 7 None 0 (at_ms 0) (at_ms 0) (os_ok 0),
      Expire,
      Dispatch \<lparr>check_clock = at_ms 100, sched_clock = at_ms 100,
                sched_env = os_ok 100, root_env = os_ok 100\<rparr>,
      Set 1 100 7 None 1 (at_ms 100) (at_ms 100) (os_ok 100),
      QueueReady 0,
      Set 3 10 7 None 0 (at_ms 100) (at_ms 100) (os_ok 100)]"

section \<open>Properties\<close>

subsection \<open>The wake policy and the scheduler always answer\<close>

lemma now_Some: "alarms s = Some l \<Longrightarrow> now c s = Some (clock_ms c)"
  by (simp add: now_def)

lemma reschedule_root_alarm_frame:
  assumes "reschedule_root_alarm e s = Some s'"
  shows "alarms s' = alarms s \<and> heap s' = heap s \<and> queues s' = queues s \<and> freed s' = freed s
         \<and> dispatcher_thread_active s' = dispatcher_thread_active s
         \<and> default_callback_queue s' = default_callback_queue s
         \<and> TIMER_INTERVAL_FOR_WAKELOCK_IN_MS s' = TIMER_INTERVAL_FOR_WAKELOCK_IN_MS s"
  using assms
  by (auto simp: reschedule_root_alarm_def Let_def split: option.splits prod.splits bind_splits)

lemma wake_policy_total:
  assumes "alarms s = Some l0"
  shows "\<exists>r. wake_policy e s l = Some r"
  using assms by (simp add: wake_policy_def now_def Let_def)

lemma reschedule_root_alarm_total:
  assumes "alarms s = Some l"
  shows "\<exists>s'. reschedule_root_alarm e s = Some s'"
proof -
  obtain r where "wake_policy e s l = Some r"
    using wake_policy_total [OF assms] by blast
  then show ?thesis
    using assms by (cases r) (simp add: reschedule_root_alarm_def Let_def)
qed

lemma next_deadline_one_shot:
  "\<not> (is_periodic A \<and> period A \<noteq> 0) \<Longrightarrow> next_deadline t A = t + period A"
  by (auto simp: next_deadline_def)

lemma remove_pending_alarm_Some:
  "alarms s = Some l \<Longrightarrow>
   remove_pending_alarm a s =
     Some (s\<lparr>alarms := Some (list_remove l a),
             queues := remove_queued_instances (queue (heap s a)) a (queues s)\<rparr>)"
  by (simp add: remove_pending_alarm_def)

lemma schedule_next_instance_heap:
  assumes "alarms s = Some l"
  shows "\<exists>s'. schedule_next_instance c e a s = Some s'
          \<and> heap s' = (heap s)(a := (heap s a)\<lparr>deadline := next_deadline (clock_ms c) (heap s a)\<rparr>)"
proof -
  define s1 where "s1 = (if callback (heap s a) \<noteq> None
      then s\<lparr>alarms := Some (list_remove l a),
             queues := remove_queued_instances (queue (heap s a)) a (queues s)\<rparr> else s)"
  define l1 where "l1 = (if callback (heap s a) \<noteq> None then list_remove l a else l)"
  have s1: "(if callback (heap s a) \<noteq> None then remove_pending_alarm a s else Some s) = Some s1"
    using assms by (simp add: s1_def remove_pending_alarm_Some)
  have a1: "alarms s1 = Some l1" and h1: "heap s1 = heap s"
    using assms by (simp_all add: s1_def l1_def)
  define h where "h = (heap s)(a := (heap s a)\<lparr>deadline := next_deadline (clock_ms c) (heap s a)\<rparr>)"
  define s2 where "s2 = s1\<lparr>heap := h, alarms := Some (insert_by_deadline h a l1)\<rparr>"
  have a2: "alarms s2 = Some (insert_by_deadline h a l1)" and h2: "heap s2 = h"
    by (simp_all add: s2_def)
  obtain s3 where s3: "reschedule_root_alarm e s2 = Some s3"
    using reschedule_root_alarm_total [OF a2] by blast
  have h3: "heap s3 = h"
    using reschedule_root_alarm_frame [OF s3] h2 by simp
  have "schedule_next_instance c e a s = Some s3 \<or> schedule_next_instance c e a s = Some s2"
    using assms s1 a1 h1 s3
    by (simp add: schedule_next_instance_def now_Some [OF a1] Let_def h_def s2_def)
  then show ?thesis
    using h2 h3 h_def by auto
qed

lemma next_deadline_anchored:
  assumes per: "period A \<noteq> 0" and is_per: "is_periodic A"
    and le: "creation_time A \<le> t"
    and nov: "unat t + unat (period A) < 2 ^ 64"
  shows "unat (next_deadline t A)
           = unat (creation_time A) + ((unat t - unat (creation_time A)) div unat (period A) + 1) * unat (period A)"
proof -
  define n where "n = unat t"
  define c0 where "c0 = unat (creation_time A)"
  define p where "p = unat (period A)"
  define m where "m = (t - creation_time A) mod period A"
  have p0: "0 < p"
    using per by (simp add: p_def unat_gt_0)
  have c0n: "c0 \<le> n"
    using le by (simp add: n_def c0_def word_le_nat_alt)
  have sub: "unat (t - creation_time A) = n - c0"
    using le by (simp add: n_def c0_def unat_sub)
  have m_nat: "unat m = (n - c0) mod p"
    by (simp add: m_def unat_mod sub p_def)
  have m_lt: "unat m < p"
    using p0 by (simp add: m_nat)
  have m_le: "m \<le> period A"
    using m_lt by (simp add: p_def word_le_nat_alt)
  have diff: "unat (period A - m) = p - unat m"
    using m_le by (simp add: unat_sub p_def)
  have "unat t + unat (period A - m) < 2 ^ 64"
    using nov diff by (simp add: p_def)
  then have "unat (t + (period A - m)) = n + (p - unat m)"
    using diff by (simp add: unat_add_lem [THEN iffD1] n_def)
  moreover have "next_deadline t A = t + (period A - m)"
    using per is_per by (simp add: next_deadline_def m_def)
  moreover have "n + (p - (n - c0) mod p) = c0 + ((n - c0) div p + 1) * p"
  proof -
    define k where "k = (n - c0) div p"
    define r where "r = (n - c0) mod p"
    have "n - c0 = k * p + r"
      by (simp add: k_def r_def)
    then have n: "n = c0 + k * p + r"
      using c0n by linarith
    have "r < p"
      using p0 by (simp add: r_def)
    then have "n + (p - r) = c0 + (k + 1) * p"
      using n by simp
    then show ?thesis
      by (simp only: k_def r_def)
  qed
  ultimately show ?thesis
    by (simp add: m_nat n_def c0_def p_def)
qed

subsection \<open>The next deadline\<close>

text \<open>
  Claim C4. On an initialized service \<open>schedule_next_instance\<close> returns, and the deadline it
  stores is \<open>now + (period - ((now - creation_time) mod period))\<close> for a periodic alarm with a
  period other than 0, and \<open>now + period\<close> otherwise, in 64-bit unsigned arithmetic. When
  the clock has not gone back behind the creation time and \<open>now + period\<close> does not wrap
  around, the deadline of a periodic alarm is \<open>creation_time + k * period\<close> for the first
  \<open>k\<close> that lies after \<open>now\<close>.
\<close>

theorem schedule_next_instance_deadline:
  assumes "alarms s = Some l"
  shows "\<exists>s'. schedule_next_instance c e a s = Some s'
      \<and> deadline (heap s' a) =
          (if is_periodic (heap s a) \<and> period (heap s a) \<noteq> 0
           then clock_ms c + (period (heap s a)
                  - ((clock_ms c - creation_time (heap s a)) mod period (heap s a)))
           else clock_ms c + period (heap s a))
      \<and> (is_periodic (heap s a) \<and> period (heap s a) \<noteq> 0
           \<and> creation_time (heap s a) \<le> clock_ms c
           \<and> unat (clock_ms c) + unat (period (heap s a)) < 2 ^ 64
         \<longrightarrow> unat (deadline (heap s' a)) =
               unat (creation_time (heap s a))
               + ((unat (clock_ms c) - unat (creation_time (heap s a))) div unat (period (heap s a)) + 1)
                 * unat (period (heap s a)))"
proof -
  obtain s' where s': "schedule_next_instance c e a s = Some s'"
    and h: "heap s' = (heap s)(a := (heap s a)\<lparr>deadline := next_deadline (clock_ms c) (heap s a)\<rparr>)"
    using schedule_next_instance_heap [OF assms] by blast
  have d: "deadline (heap s' a) = next_deadline (clock_ms c) (heap s a)"
    by (simp add: h)
  have formula: "next_deadline (clock_ms c) (heap s a) =
          (if is_periodic (heap s a) \<and> period (heap s a) \<noteq> 0
           then clock_ms c + (period (heap s a)
                  - ((clock_ms c - creation_time (heap s a)) mod period (heap s a)))
           else clock_ms c + period (heap s a))"
    by (simp add: next_deadline_def)
  have anchored: "is_periodic (heap s a) \<and> period (heap s a) \<noteq> 0
           \<and> creation_time (heap s a) \<le> clock_ms c
           \<and> unat (clock_ms c) + unat (period (heap s a)) < 2 ^ 64
         \<longrightarrow> unat (deadline (heap s' a)) =
               unat (creation_time (heap s a))
               + ((unat (clock_ms c) - unat (creation_time (heap s a))) div unat (period (heap s a)) + 1)
                 * unat (period (heap s a))"
    using next_deadline_anchored [of "heap s a" "clock_ms c"] by (simp only: d) blast
  from s' d [unfolded formula] anchored show ?thesis
    by blast
qed

lemma clock_ms_at_ms: "clock_ms (at_ms n) = of_nat n"
proof -
  have "n div 1000 * 1000 + (n mod 1000 * 1000000) div 1000000 = n"
    by simp
  then show ?thesis
    unfolding clock_ms_def at_ms_def by (simp only: option.case prod.case)
qed

theorem schedule_next_instance_deadline_witness:
  "\<exists>s'. schedule_next_instance (at_ms 1175) (os_ok 1175) 1
           (pending_state [] (all_alarms (armed_alarm True 1000 50 0))) = Some s'
        \<and> deadline (heap s' 1) = 1200
        \<and> unat (deadline (heap s' 1)) = 1000 + 4 * 50"
  using schedule_next_instance_deadline
    [of "pending_state [] (all_alarms (armed_alarm True 1000 50 0))" "[]" "at_ms 1175" "os_ok 1175" 1]
  by (simp add: pending_state_def initialized_state_def uninitialized_state_def armed_alarm_def
      zeroed_alarm_def clock_ms_at_ms all_alarms_def)

lemma schedule_next_instance_result:
  fixes s :: alarm_state and c :: clock_reading and a :: alarm_ptr
  assumes "alarms s = Some l"
  defines "h \<equiv> (heap s)(a := (heap s a)\<lparr>deadline := next_deadline (clock_ms c) (heap s a)\<rparr>)"
  defines "l1 \<equiv> (if callback (heap s a) \<noteq> None then list_remove l a else l)"
  defines "s2 \<equiv> s\<lparr>queues := (if callback (heap s a) \<noteq> None
                               then remove_queued_instances (queue (heap s a)) a (queues s)
                               else queues s),
                    heap := h,
                    alarms := Some (insert_by_deadline h a l1)\<rparr>"
  shows "schedule_next_instance c e a s =
           (if (l \<noteq> [] \<and> hd l = a) \<or> hd (insert_by_deadline h a l1) = a \<and> insert_by_deadline h a l1 \<noteq> []
            then reschedule_root_alarm e s2 else Some s2)"
proof (cases "callback (heap s a) \<noteq> None")
  case True
  then show ?thesis
    using assms(1)
    by (simp add: schedule_next_instance_def remove_pending_alarm_def now_def Let_def
        h_def l1_def s2_def list_is_empty_def list_front_def conj_commute)
next
  case False
  then show ?thesis
    using assms(1)
    by (simp add: schedule_next_instance_def now_def Let_def
        h_def l1_def s2_def list_is_empty_def list_front_def conj_commute)
qed

lemma alarm_set_internal_heap:
  assumes "alarms s = Some l"
  shows "\<exists>s'. alarm_set_internal c0 c1 e (Some a) per (Some cb) dat q s = Some s'
      \<and> heap s' a = bump_scheduled
           ((heap s a)\<lparr>creation_time := clock_ms c0, period := per, queue := q,
              callback := Some cb, data := dat,
              deadline := next_deadline (clock_ms c1)
                 ((heap s a)\<lparr>creation_time := clock_ms c0, period := per\<rparr>)\<rparr>)"
proof -
  define s1 where "s1 = s\<lparr>heap := (heap s)(a := (heap s a)\<lparr>creation_time := clock_ms c0,
      period := per, queue := q, callback := Some cb, data := dat\<rparr>)\<rparr>"
  have a1: "alarms s1 = Some l"
    using assms by (simp add: s1_def)
  obtain s2 where s2: "schedule_next_instance c1 e a s1 = Some s2"
    and h2: "heap s2 = (heap s1)(a := (heap s1 a)\<lparr>deadline := next_deadline (clock_ms c1) (heap s1 a)\<rparr>)"
    using schedule_next_instance_heap [OF a1] by blast
  have nd: "next_deadline (clock_ms c1) (heap s1 a)
      = next_deadline (clock_ms c1) ((heap s a)\<lparr>creation_time := clock_ms c0, period := per\<rparr>)"
    by (simp add: s1_def next_deadline_def)
  have "alarm_set_internal c0 c1 e (Some a) per (Some cb) dat q s
      = Some (s2\<lparr>heap := (heap s2)(a := bump_scheduled (heap s2 a))\<rparr>)"
    using assms s2 by (simp add: alarm_set_internal_def now_def Let_def s1_def)
  moreover have "heap s2 a = (heap s a)\<lparr>creation_time := clock_ms c0, period := per, queue := q,
              callback := Some cb, data := dat,
              deadline := next_deadline (clock_ms c1)
                 ((heap s a)\<lparr>creation_time := clock_ms c0, period := per\<rparr>)\<rparr>"
    by (simp add: h2 nd) (simp add: s1_def)
  ultimately show ?thesis
    by simp
qed

lemma next_deadline_period_zero: "period A = 0 \<Longrightarrow> next_deadline t A = t"
  by (simp add: next_deadline_def)

subsection \<open>A periodic alarm with period 0\<close>

text \<open>
  Claim C9. \<open>alarm_set_internal\<close> accepts the period 0 for a periodic alarm, and every
  call of \<open>schedule_next_instance\<close> on a periodic alarm whose period is 0 returns with the
  deadline set to \<open>now\<close>: the guard on the period keeps the modulo out of the computation.
\<close>

theorem periodic_with_period_zero:
  assumes "alarms s = Some l" and "is_periodic (heap s a)"
  shows "(period (heap s a) = 0 \<longrightarrow>
            (\<exists>s'. schedule_next_instance c e a s = Some s' \<and> deadline (heap s' a) = clock_ms c))
       \<and> (\<exists>s'. alarm_set_internal c0 c e (Some a) 0 (Some cb) dat q s = Some s'
              \<and> is_periodic (heap s' a) \<and> period (heap s' a) = 0
              \<and> callback (heap s' a) = Some cb
              \<and> deadline (heap s' a) = clock_ms c)"
proof
  show "period (heap s a) = 0 \<longrightarrow>
            (\<exists>s'. schedule_next_instance c e a s = Some s' \<and> deadline (heap s' a) = clock_ms c)"
  proof
    assume p0: "period (heap s a) = 0"
    obtain s' where "schedule_next_instance c e a s = Some s'"
      and "heap s' = (heap s)(a := (heap s a)\<lparr>deadline := next_deadline (clock_ms c) (heap s a)\<rparr>)"
      using schedule_next_instance_heap [OF assms(1)] by blast
    then show "\<exists>s'. schedule_next_instance c e a s = Some s' \<and> deadline (heap s' a) = clock_ms c"
      using p0 by (simp add: next_deadline_period_zero)
  qed
next
  obtain s' where s': "alarm_set_internal c0 c e (Some a) 0 (Some cb) dat q s = Some s'"
    and h: "heap s' a = bump_scheduled
           ((heap s a)\<lparr>creation_time := clock_ms c0, period := 0, queue := q,
              callback := Some cb, data := dat,
              deadline := next_deadline (clock_ms c)
                 ((heap s a)\<lparr>creation_time := clock_ms c0, period := 0\<rparr>)\<rparr>)"
    using alarm_set_internal_heap [OF assms(1)] by blast
  show "\<exists>s'. alarm_set_internal c0 c e (Some a) 0 (Some cb) dat q s = Some s'
              \<and> is_periodic (heap s' a) \<and> period (heap s' a) = 0
              \<and> callback (heap s' a) = Some cb
              \<and> deadline (heap s' a) = clock_ms c"
    using s' assms(2) by (simp add: h bump_scheduled_def next_deadline_period_zero)
qed

theorem periodic_with_period_zero_witness:
  "(\<exists>s'. schedule_next_instance (at_ms 40) (os_ok 40) 1
            (pending_state [] (all_alarms (armed_alarm True 10 0 0))) = Some s'
         \<and> deadline (heap s' 1) = 40)
   \<and> (\<exists>s'. alarm_set_internal (at_ms 30) (at_ms 40) (os_ok 40) (Some 1) 0 (Some 7) None (Some 0)
              (pending_state [] (all_alarms (armed_alarm True 10 0 0))) = Some s'
         \<and> deadline (heap s' 1) = 40)"
proof -
  define s where "s = pending_state [] (all_alarms (armed_alarm True 10 0 0))"
  have a: "alarms s = Some []" and p: "is_periodic (heap s 1)" and z: "period (heap s 1) = 0"
    by (simp_all add: s_def pending_state_def initialized_state_def uninitialized_state_def
        armed_alarm_def zeroed_alarm_def all_alarms_def)
  from periodic_with_period_zero [OF a p, of "at_ms 40" "os_ok 40" "at_ms 30" 7 None "Some 0"] z
  show ?thesis
    unfolding s_def [symmetric] clock_ms_at_ms by auto
qed

subsection \<open>The two branches of the wake policy\<close>

lemma wake_policy_nonempty:
  assumes "alarms s = Some l0" and "l \<noteq> []"
  shows "wake_policy e s l =
    Some (if sint (deadline (heap s (hd l)) - clock_ms (clock e))
               < sint (TIMER_INTERVAL_FOR_WAKELOCK_IN_MS s)
          then if \<not> timer_set s
               then if acquire_status e \<noteq> BT_STATUS_SUCCESS
                    then (zero_time, Some (acquire_status e), None)
                    else (wakeup_time_of (deadline (heap s (hd l))), Some (acquire_status e), None)
               else (wakeup_time_of (deadline (heap s (hd l))), None, None)
          else (zero_time, None,
                Some (deadline (heap s (hd l)) - clock_ms (clock e), set_wake_alarm_ok e)))"
  using assms by (simp add: wake_policy_def now_def Let_def list_is_empty_def list_front_def)

lemma wake_policy_empty: "wake_policy e s [] = Some (zero_time, None, None)"
  by (simp add: wake_policy_def list_is_empty_def)

lemma zero_time_iff: "(t = zero_time) = (tv_sec t = 0 \<and> tv_nsec t = 0)"
  by (cases t) (auto simp: zero_time_def)

lemma reschedule_root_alarm_unfold:
  assumes "alarms s = Some l" and "wake_policy e s l = Some (t, acq, wk)"
  shows "reschedule_root_alarm e s =
     Some (s\<lparr>timer := t,
             timer_set := (t \<noteq> zero_time),
             alarm_expired := alarm_expired s + (if t \<noteq> zero_time \<and> timer_gettime_zero e then 1 else 0),
             reevals := reevals s @
                [\<lparr>acquired = acq, wake_alarm = wk, released = (timer_set s \<and> t = zero_time),
                  armed = t, posted = (t \<noteq> zero_time \<and> timer_gettime_zero e)\<rparr>]\<rparr>)"
  using assms by (simp add: reschedule_root_alarm_def Let_def zero_time_iff)

text \<open>
  Claim C5, amended. On a pending list that is not empty \<open>reschedule_root_alarm\<close> returns
  and makes one more record of calls. With \<open>delta = front.deadline - now\<close> read as a signed
  64-bit number: when \<open>delta\<close> is below the threshold, \<open>acquire_wake_lock\<close> is called exactly
  when \<open>timer_set\<close> is false, no wake alarm is asked for, and, when the lock was already held
  or the call succeeds, the in-process timer is programmed with the absolute time of
  \<open>front.deadline\<close>; when \<open>delta\<close> is at or above the threshold, \<open>set_wake_alarm\<close> is called
  with \<open>delta\<close>, \<open>acquire_wake_lock\<close> is not called, the in-process timer is programmed with
  zero, \<open>timer_set\<close> is false and \<open>release_wake_lock\<close> is called exactly when \<open>timer_set\<close> was
  true.
\<close>

theorem reschedule_root_alarm_branches:
  assumes "alarms s = Some l" and "l \<noteq> []"
  shows "\<exists>s'. reschedule_root_alarm e s = Some s'
      \<and> length (reevals s') = Suc (length (reevals s))
      \<and> (if sint (deadline (heap s (hd l)) - clock_ms (clock e))
               < sint (TIMER_INTERVAL_FOR_WAKELOCK_IN_MS s)
          then acquired (last (reevals s')) = (if timer_set s then None else Some (acquire_status e))
             \<and> wake_alarm (last (reevals s')) = None
             \<and> (timer_set s \<or> acquire_status e = BT_STATUS_SUCCESS \<longrightarrow>
                   armed (last (reevals s')) = wakeup_time_of (deadline (heap s (hd l)))
                 \<and> timer s' = wakeup_time_of (deadline (heap s (hd l)))
                 \<and> released (last (reevals s'))
                     = (timer_set s \<and> wakeup_time_of (deadline (heap s (hd l))) = zero_time)
                 \<and> timer_set s' = (wakeup_time_of (deadline (heap s (hd l))) \<noteq> zero_time))
          else wake_alarm (last (reevals s'))
                 = Some (deadline (heap s (hd l)) - clock_ms (clock e), set_wake_alarm_ok e)
             \<and> acquired (last (reevals s')) = None
             \<and> armed (last (reevals s')) = zero_time
             \<and> timer s' = zero_time
             \<and> released (last (reevals s')) = timer_set s
             \<and> \<not> timer_set s')"
proof -
  obtain t acq wk where wp: "wake_policy e s l = Some (t, acq, wk)"
    using wake_policy_total [OF assms(1), of e l] by (metis prod_cases3)
  note r = reschedule_root_alarm_unfold [OF assms(1) wp]
  note w = wp [unfolded wake_policy_nonempty [OF assms]]
  show ?thesis
  proof (cases "sint (deadline (heap s (hd l)) - clock_ms (clock e))
               < sint (TIMER_INTERVAL_FOR_WAKELOCK_IN_MS s)")
    case True
    then show ?thesis
      using w by (auto simp: r split: if_splits)
  next
    case False
    then show ?thesis
      using w by (auto simp: r split: if_splits)
  qed
qed

lemmas example_defs =
  pending_state_def initialized_state_def uninitialized_state_def armed_alarm_def
  zeroed_alarm_def all_alarms_def os_ok_def os_no_lock_def BT_STATUS_SUCCESS_def

theorem reschedule_root_alarm_branches_witness:
  "(\<exists>s'. reschedule_root_alarm (os_ok 9500)
            (pending_state [1] (all_alarms (armed_alarm False 9500 100 9600))) = Some s'
        \<and> acquired (last (reevals s')) = Some BT_STATUS_SUCCESS
        \<and> timer s' = \<lparr>tv_sec = 9, tv_nsec = 600000000\<rparr>)
   \<and> (\<exists>s'. reschedule_root_alarm (os_ok 0)
            (pending_state [1] (all_alarms (armed_alarm False 0 10000 10000))) = Some s'
        \<and> wake_alarm (last (reevals s')) = Some (10000, True)
        \<and> \<not> timer_set s')"
proof -
  define s where "s = pending_state [1] (all_alarms (armed_alarm False 9500 100 9600))"
  define u where "u = pending_state [1] (all_alarms (armed_alarm False 0 10000 10000))"
  have s: "alarms s = Some [1]" "\<not> timer_set s" "\<And>a. deadline (heap s a) = 9600"
      "TIMER_INTERVAL_FOR_WAKELOCK_IN_MS s = 3000"
    by (simp_all add: s_def example_defs)
  have u: "alarms u = Some [1]" "\<not> timer_set u" "\<And>a. deadline (heap u a) = 10000"
      "TIMER_INTERVAL_FOR_WAKELOCK_IN_MS u = 3000"
    by (simp_all add: u_def example_defs)
  have c: "clock_ms (clock (os_ok 9500)) = 9500" "clock_ms (clock (os_ok 0)) = 0"
      "acquire_status (os_ok 9500) = BT_STATUS_SUCCESS" "set_wake_alarm_ok (os_ok 0)"
    by (simp_all add: os_ok_def clock_ms_at_ms)
  have w: "wakeup_time_of 9600 = \<lparr>tv_sec = 9, tv_nsec = 600000000\<rparr>"
    by (simp add: wakeup_time_of_def)
  from reschedule_root_alarm_branches [of s "[1]" "os_ok 9500"]
  have "\<exists>s'. reschedule_root_alarm (os_ok 9500) s = Some s'
        \<and> acquired (last (reevals s')) = Some BT_STATUS_SUCCESS
        \<and> timer s' = \<lparr>tv_sec = 9, tv_nsec = 600000000\<rparr>"
    by (auto simp: s c w)
  moreover from reschedule_root_alarm_branches [of u "[1]" "os_ok 0"]
  have "\<exists>s'. reschedule_root_alarm (os_ok 0) u = Some s'
        \<and> wake_alarm (last (reevals s')) = Some (10000, True)
        \<and> \<not> timer_set s'"
    by (auto simp: u c)
  ultimately show ?thesis
    by (simp add: s_def u_def)
qed

text \<open>
  Claim C5 as it was stated fails where the wake lock is refused: the front alarm is 100 ms
  away, below the threshold of 3000 ms, and the timer is programmed with zero, not with the
  time of the deadline.
\<close>

theorem reschedule_root_alarm_unarmed_counterexample:
  "sint (deadline (heap (pending_state [1] (all_alarms (armed_alarm False 0 100 100))) 1)
          - clock_ms (clock (os_no_lock 0)))
     < sint (TIMER_INTERVAL_FOR_WAKELOCK_IN_MS
              (pending_state [1] (all_alarms (armed_alarm False 0 100 100))))
   \<and> map_option timer
        (reschedule_root_alarm (os_no_lock 0)
           (pending_state [1] (all_alarms (armed_alarm False 0 100 100)))) = Some zero_time
   \<and> wakeup_time_of (deadline (heap (pending_state [1] (all_alarms (armed_alarm False 0 100 100))) 1))
       \<noteq> zero_time"
  by (simp add: example_defs reschedule_root_alarm_def wake_policy_def now_def list_is_empty_def
      list_front_def clock_ms_at_ms Let_def zero_time_def wakeup_time_of_def)

subsection \<open>A refused wake lock\<close>

text \<open>
  Claim C2, amended. When the front alarm is within the short horizon, \<open>timer_set\<close> is false
  and \<open>acquire_wake_lock\<close> does not return \<open>BT_STATUS_SUCCESS\<close>, \<open>reschedule_root_alarm\<close> jumps
  to \<open>done\<close>: it asks for no wake alarm, programs the in-process timer with zero, leaves
  \<open>timer_set\<close> false, calls no release and posts nothing; no timer path is armed. The
  pending list and the alarm records stay as they are.
\<close>

theorem acquire_failure_disarms:
  assumes "alarms s = Some l" and "l \<noteq> []"
    and "sint (deadline (heap s (hd l)) - clock_ms (clock e))
           < sint (TIMER_INTERVAL_FOR_WAKELOCK_IN_MS s)"
    and "\<not> timer_set s"
    and "acquire_status e \<noteq> BT_STATUS_SUCCESS"
  shows "reschedule_root_alarm e s =
           Some (s\<lparr>timer := zero_time, timer_set := False,
                   reevals := reevals s @
                     [\<lparr>acquired = Some (acquire_status e), wake_alarm = None,
                       released = False, armed = zero_time, posted = False\<rparr>]\<rparr>)
       \<and> \<not> arms_timer_path
            (s\<lparr>timer := zero_time, timer_set := False,
               reevals := reevals s @
                 [\<lparr>acquired = Some (acquire_status e), wake_alarm = None,
                   released = False, armed = zero_time, posted = False\<rparr>]\<rparr>)"
proof -
  have "wake_policy e s l = Some (zero_time, Some (acquire_status e), None)"
    using assms by (simp add: wake_policy_nonempty [OF assms(1,2)])
  from reschedule_root_alarm_unfold [OF assms(1) this] assms(4)
  show ?thesis
    by (simp add: arms_timer_path_def)
qed

theorem acquire_failure_disarms_witness:
  "\<exists>s'. reschedule_root_alarm (os_no_lock 4000)
          (pending_state [2] (all_alarms (armed_alarm True 4000 1000 5000))) = Some s'
      \<and> timer s' = zero_time \<and> \<not> timer_set s' \<and> \<not> arms_timer_path s'
      \<and> alarms s' = Some [2]
      \<and> map acquired (reevals s') = [Some 1] \<and> map wake_alarm (reevals s') = [None]"
proof -
  define s where "s = pending_state [2] (all_alarms (armed_alarm True 4000 1000 5000))"
  have s: "alarms s = Some [2]" "\<not> timer_set s" "\<And>a. deadline (heap s a) = 5000"
      "TIMER_INTERVAL_FOR_WAKELOCK_IN_MS s = 3000" "reevals s = []"
    by (simp_all add: s_def example_defs)
  have c: "clock_ms (clock (os_no_lock 4000)) = 4000"
      "acquire_status (os_no_lock 4000) = 1"
    by (simp_all add: os_ok_def os_no_lock_def clock_ms_at_ms)
  from acquire_failure_disarms [of s "[2]" "os_no_lock 4000"]
  show ?thesis
    unfolding s_def [symmetric] by (auto simp: s c BT_STATUS_SUCCESS_def)
qed

text \<open>
  Claim C2 as it was stated fails: the front alarm is 1000 ms away, the wake lock is
  refused, and afterwards neither the in-process timer nor a wake alarm is armed.
\<close>

theorem acquire_failure_no_timer_path_counterexample:
  "map_option arms_timer_path
     (reschedule_root_alarm (os_no_lock 4000)
        (pending_state [2] (all_alarms (armed_alarm True 4000 1000 5000)))) = Some False"
  by (simp add: example_defs reschedule_root_alarm_def wake_policy_def now_def list_is_empty_def
      list_front_def clock_ms_at_ms Let_def zero_time_def arms_timer_path_def)

subsection \<open>The dispatcher and alarms that are not due\<close>

lemma removeAll_remove1: "removeAll a (remove1 a xs) = removeAll a xs"
  by (induction xs) auto

lemma remove_queued_instances_None: "remove_queued_instances None a qs = qs"
  by (simp add: remove_queued_instances.simps fixed_queue_try_remove_from_queue_def)

lemma remove_queued_instances_Some:
  "remove_queued_instances (Some k) a qs = qs(k := removeAll a (qs k))"
proof (induction "length (qs k)" arbitrary: qs rule: less_induct)
  case less
  show ?case
  proof (cases "a \<in> set (qs k)")
    case True
    then have shorter: "length (remove1 a (qs k)) < length (qs k)"
      using length_pos_if_in_set [of a "qs k"] by (simp add: length_remove1)
    have "remove_queued_instances (Some k) a qs
        = remove_queued_instances (Some k) a (qs(k := remove1 a (qs k)))"
      using True
      by (subst remove_queued_instances.simps) (simp add: fixed_queue_try_remove_from_queue_def)
    also have "\<dots> = (qs(k := remove1 a (qs k)))(k := removeAll a (remove1 a (qs k)))"
      using less [of "qs(k := remove1 a (qs k))"] shorter by simp
    finally show ?thesis
      by (simp add: removeAll_remove1)
  next
    case False
    then show ?thesis
      by (subst remove_queued_instances.simps)
         (simp add: fixed_queue_try_remove_from_queue_def)
  qed
qed

lemma dispatch_wakeup_not_due:
  assumes "alarms s = Some l"
    and "l = [] \<or> clock_ms (check_clock w) < deadline (heap s (hd l))"
  shows "dispatch_wakeup w s = reschedule_root_alarm (root_env w) s"
  using assms by (auto simp: dispatch_wakeup_def list_is_empty_def list_front_def)

subsection \<open>The worker-queue handler\<close>

text \<open>
  Claim C7. When the handler dequeues an alarm it captures the callback, the data and the
  deadline for the statistics (\<open>prev_deadline\<close> of a periodic alarm, \<open>deadline\<close> of a one-shot
  alarm); the record of a periodic alarm stays as it is, and the record of a one-shot alarm
  has \<open>deadline\<close>, \<open>callback\<close> and \<open>data\<close> cleared in the state that the callback finds.
\<close>

theorem alarm_queue_ready_captures:
  assumes "queues s k = a # rest"
  shows "\<exists>s' inv. alarm_queue_ready (Some k) s = Some (s', Some inv)
      \<and> inv_alarm inv = a
      \<and> inv_callback inv = callback (heap s a)
      \<and> inv_data inv = data (heap s a)
      \<and> inv_deadline inv =
           (if is_periodic (heap s a) then prev_deadline (heap s a) else deadline (heap s a))
      \<and> queues s' = (queues s)(k := rest)
      \<and> heap s' =
           (if is_periodic (heap s a) then heap s
            else (heap s)(a := (heap s a)\<lparr>deadline := 0, callback := None, data := None\<rparr>))
      \<and> alarms s' = alarms s \<and> timer_set s' = timer_set s \<and> reevals s' = reevals s"
  using assms by (simp add: alarm_queue_ready_def fixed_queue_try_dequeue_def Let_def)

theorem alarm_queue_ready_captures_witness:
  "(\<exists>s' inv. alarm_queue_ready (Some 0)
        ((pending_state [] (all_alarms (armed_alarm False 0 100 100)))
           \<lparr>queues := (queues initialized_state)(0 := [1])\<rparr>) = Some (s', Some inv)
      \<and> inv_callback inv = Some 7 \<and> inv_data inv = Some 9 \<and> inv_deadline inv = 100
      \<and> callback (heap s' 1) = None \<and> data (heap s' 1) = None \<and> deadline (heap s' 1) = 0
      \<and> queues s' 0 = [])
   \<and> (\<exists>s' inv. alarm_queue_ready (Some 0)
        ((pending_state [1] (all_alarms ((armed_alarm True 0 100 200)\<lparr>prev_deadline := 100\<rparr>)))
           \<lparr>queues := (queues initialized_state)(0 := [1])\<rparr>) = Some (s', Some inv)
      \<and> inv_callback inv = Some 7 \<and> inv_data inv = Some 9 \<and> inv_deadline inv = 100
      \<and> callback (heap s' 1) = Some 7 \<and> data (heap s' 1) = Some 9 \<and> deadline (heap s' 1) = 200)"
proof -
  define s where "s = (pending_state [] (all_alarms (armed_alarm False 0 100 100)))
           \<lparr>queues := (queues initialized_state)(0 := [1])\<rparr>"
  define u where "u = (pending_state [1] (all_alarms ((armed_alarm True 0 100 200)\<lparr>prev_deadline := 100\<rparr>)))
           \<lparr>queues := (queues initialized_state)(0 := [1])\<rparr>"
  have s: "queues s 0 = 1 # []" "\<And>a. heap s a = armed_alarm False 0 100 100"
    by (simp_all add: s_def example_defs)
  have u: "queues u 0 = 1 # []" "\<And>a. heap u a = (armed_alarm True 0 100 200)\<lparr>prev_deadline := 100\<rparr>"
    by (simp_all add: u_def example_defs)
  from alarm_queue_ready_captures [OF s(1)]
  have "\<exists>s' inv. alarm_queue_ready (Some 0) s = Some (s', Some inv)
      \<and> inv_callback inv = Some 7 \<and> inv_data inv = Some 9 \<and> inv_deadline inv = 100
      \<and> callback (heap s' 1) = None \<and> data (heap s' 1) = None \<and> deadline (heap s' 1) = 0
      \<and> queues s' 0 = []"
    by (auto simp: s armed_alarm_def zeroed_alarm_def)
  moreover from alarm_queue_ready_captures [OF u(1)]
  have "\<exists>s' inv. alarm_queue_ready (Some 0) u = Some (s', Some inv)
      \<and> inv_callback inv = Some 7 \<and> inv_data inv = Some 9 \<and> inv_deadline inv = 100
      \<and> callback (heap s' 1) = Some 7 \<and> data (heap s' 1) = Some 9 \<and> deadline (heap s' 1) = 200"
    by (auto simp: u armed_alarm_def zeroed_alarm_def)
  ultimately show ?thesis
    unfolding s_def u_def by blast
qed

subsection \<open>Cancelling\<close>

lemma alarm_cancel_internal_unfold:
  assumes "alarms s = Some l"
  shows "alarm_cancel_internal e a s =
     (if l \<noteq> [] \<and> hd l = a
      then reschedule_root_alarm e
             (s\<lparr>alarms := Some (remove1 a l),
                queues := remove_queued_instances (queue (heap s a)) a (queues s),
                heap := (heap s)(a := cancel_fields (heap s a))\<rparr>)
      else Some (s\<lparr>alarms := Some (remove1 a l),
                queues := remove_queued_instances (queue (heap s a)) a (queues s),
                heap := (heap s)(a := cancel_fields (heap s a))\<rparr>))"
  using assms
  by (simp add: alarm_cancel_internal_def remove_pending_alarm_def Let_def list_is_empty_def
      list_front_def list_remove_def)

text \<open>
  Claim C8. On an initialized service whose pending list holds no alarm twice, cancelling
  the alarm \<open>a\<close> returns; the alarm is no longer in the pending list, every copy of it is gone
  from its worker queue and the other queues are as they were; its \<open>deadline\<close>,
  \<open>prev_deadline\<close>, \<open>callback\<close>, \<open>data\<close> and \<open>queue\<close> are cleared and its \<open>canceled_count\<close> is one
  higher; \<open>reschedule_root_alarm\<close> has run once if the alarm was at the front of the list
  and not at all otherwise; and \<open>alarm_is_scheduled\<close> answers false.
\<close>

theorem alarm_cancel_internal_effect:
  assumes "alarms s = Some l" and "distinct l"
  shows "\<exists>s'. alarm_cancel_internal e a s = Some s'
      \<and> alarm_cancel e (Some a) s = Some s'
      \<and> alarms s' = Some (remove1 a l) \<and> a \<notin> set (remove1 a l)
      \<and> (\<forall>k. queues s' k =
             (if queue (heap s a) = Some k then removeAll a (queues s k) else queues s k))
      \<and> (\<forall>k. queue (heap s a) = Some k \<longrightarrow> a \<notin> set (queues s' k))
      \<and> heap s' = (heap s)(a := cancel_fields (heap s a))
      \<and> deadline (heap s' a) = 0 \<and> prev_deadline (heap s' a) = 0
      \<and> callback (heap s' a) = None \<and> data (heap s' a) = None \<and> queue (heap s' a) = None
      \<and> canceled_count (stats (heap s' a)) = canceled_count (stats (heap s a)) + 1
      \<and> length (reevals s') = length (reevals s) + (if l \<noteq> [] \<and> hd l = a then 1 else 0)
      \<and> \<not> alarm_is_scheduled (Some a) s'"
proof -
  define s2 where "s2 = s\<lparr>alarms := Some (remove1 a l),
                queues := remove_queued_instances (queue (heap s a)) a (queues s),
                heap := (heap s)(a := cancel_fields (heap s a))\<rparr>"
  have q2: "queues s2 k =
             (if queue (heap s a) = Some k then removeAll a (queues s k) else queues s k)" for k
    by (cases "queue (heap s a)")
       (simp_all add: s2_def remove_queued_instances_None remove_queued_instances_Some)
  have f2: "alarms s2 = Some (remove1 a l)" "heap s2 = (heap s)(a := cancel_fields (heap s a))"
      "reevals s2 = reevals s"
    by (simp_all add: s2_def)
  have gone: "a \<notin> set (remove1 a l)"
    using assms(2) by simp
  show ?thesis
  proof (cases "l \<noteq> [] \<and> hd l = a")
    case True
    obtain s' where s': "reschedule_root_alarm e s2 = Some s'"
      using reschedule_root_alarm_total [OF f2(1)] by blast
    obtain t acq wk where "wake_policy e s2 (remove1 a l) = Some (t, acq, wk)"
      using wake_policy_total [OF f2(1), of e "remove1 a l"] by (metis prod_cases3)
    from reschedule_root_alarm_unfold [OF f2(1) this] s'
    have len: "length (reevals s') = Suc (length (reevals s2))"
      by auto
    have c: "alarm_cancel_internal e a s = Some s'"
      unfolding alarm_cancel_internal_unfold [OF assms(1)] s' [unfolded s2_def]
      using True by simp
    show ?thesis
      using c reschedule_root_alarm_frame [OF s'] q2 f2 gone len True assms(1)
      by (simp add: alarm_cancel_def alarm_is_scheduled_def cancel_fields_def)
  next
    case False
    have c: "alarm_cancel_internal e a s = Some s2"
      unfolding alarm_cancel_internal_unfold [OF assms(1)] s2_def
      using False by (simp only: if_False)
    show ?thesis
      using c q2 f2 gone False assms(1)
      by (simp add: alarm_cancel_def alarm_is_scheduled_def cancel_fields_def)
  qed
qed

theorem alarm_cancel_internal_effect_witness:
  "\<exists>s'. alarm_cancel_internal (os_ok 10) 1
          ((pending_state [1, 2] (all_alarms (armed_alarm False 0 100 100)))
             \<lparr>queues := (queues initialized_state)(0 := [1, 2, 1])\<rparr>) = Some s'
      \<and> alarms s' = Some [2] \<and> queues s' 0 = [2]
      \<and> deadline (heap s' 1) = 0 \<and> callback (heap s' 1) = None \<and> queue (heap s' 1) = None
      \<and> canceled_count (stats (heap s' 1)) = 1
      \<and> length (reevals s') = 1
      \<and> alarm_is_scheduled (Some 1) s' = False"
proof -
  define s where "s = (pending_state [1, 2] (all_alarms (armed_alarm False 0 100 100)))
             \<lparr>queues := (queues initialized_state)(0 := [1, 2, 1])\<rparr>"
  have s: "alarms s = Some [1, 2]" "\<And>a. heap s a = armed_alarm False 0 100 100"
      "queues s 0 = [1, 2, 1]" "reevals s = []"
    by (simp_all add: s_def example_defs)
  have d: "distinct [1, 2 :: nat]"
    by simp
  from alarm_cancel_internal_effect [OF s(1) d, of "os_ok 10" 1]
  show ?thesis
    unfolding s_def [symmetric]
    by (auto simp: s armed_alarm_def zeroed_alarm_def cancel_fields_def)
qed

subsection \<open>Null pointers\<close>

text \<open>
  Claim C10, amended. \<open>alarm_free(NULL)\<close> returns and changes nothing. \<open>alarm_cancel(NULL)\<close>
  returns and changes nothing once the service is initialized; before that its assertion
  on the alarms list fails, whatever the pointer. \<open>alarm_is_scheduled\<close> answers false for a
  null pointer, and for any pointer while the service is not initialized.
\<close>

theorem null_pointer_tolerance:
  "alarm_free e None s = Some s
   \<and> (alarms s \<noteq> None \<longrightarrow> alarm_cancel e None s = Some s)
   \<and> (alarms s = None \<longrightarrow> alarm_cancel e alarm s = None)
   \<and> \<not> alarm_is_scheduled None s
   \<and> (alarms s = None \<longrightarrow> \<not> alarm_is_scheduled alarm s)"
  by (simp add: alarm_free_def alarm_cancel_def alarm_is_scheduled_def split: option.splits)

theorem null_pointer_tolerance_witness:
  "alarm_free (os_ok 0) None initialized_state = Some initialized_state
   \<and> alarm_cancel (os_ok 0) None initialized_state = Some initialized_state
   \<and> alarm_is_scheduled None initialized_state = False
   \<and> alarm_is_scheduled (Some 1) uninitialized_state = False
   \<and> alarm_free (os_ok 0) None uninitialized_state = Some uninitialized_state"
proof -
  have i: "alarms initialized_state \<noteq> None" and u: "alarms uninitialized_state = None"
    by (simp_all add: initialized_state_def uninitialized_state_def)
  from null_pointer_tolerance [of "os_ok 0" initialized_state None]
       null_pointer_tolerance [of "os_ok 0" uninitialized_state "Some 1"] i u
  show ?thesis
    by simp
qed

text \<open>
  Claim C10 as it was stated fails for \<open>alarm_cancel(NULL)\<close> before the first alarm is
  created: the assertion of line 249 comes before the test of the pointer.
\<close>

theorem alarm_cancel_null_uninitialized_counterexample:
  "alarm_cancel (os_ok 0) None uninitialized_state = None"
  by (simp add: alarm_cancel_def uninitialized_state_def)

subsection \<open>The order of the pending list\<close>

lemma pending_sorted_iff: "pending_sorted h l = sorted (map (\<lambda>a. deadline (h a)) l)"
  by (induction h l rule: pending_sorted.induct) (auto intro: order_trans)

lemma insert_after_node_split:
  "insert_after_node h a (n # rest) =
     n # (takeWhile (\<lambda>b. deadline (h b) \<le> deadline (h a)) rest
          @ a # dropWhile (\<lambda>b. deadline (h b) \<le> deadline (h a)) rest)"
proof (induction rest arbitrary: n)
  case Nil
  show ?case by simp
next
  case (Cons m r)
  show ?case
  proof (cases "deadline (h a) < deadline (h m)")
    case True
    then have "\<not> deadline (h m) \<le> deadline (h a)"
      by (simp add: not_le)
    with True show ?thesis
      by simp
  next
    case False
    then have "deadline (h m) \<le> deadline (h a)"
      by (simp add: not_less)
    with False Cons [of m] show ?thesis
      by simp
  qed
qed

lemma insert_by_deadline_split:
  "insert_by_deadline h a l =
     takeWhile (\<lambda>b. deadline (h b) \<le> deadline (h a)) l
     @ a # dropWhile (\<lambda>b. deadline (h b) \<le> deadline (h a)) l"
proof (cases l)
  case Nil
  then show ?thesis
    by (simp add: insert_by_deadline_def list_is_empty_def list_prepend_def)
next
  case (Cons n rest)
  show ?thesis
  proof (cases "deadline (h a) < deadline (h n)")
    case True
    then have "\<not> deadline (h n) \<le> deadline (h a)"
      by (simp add: not_le)
    with True Cons show ?thesis
      by (simp add: insert_by_deadline_def list_is_empty_def list_prepend_def list_front_def)
  next
    case False
    then have "deadline (h n) \<le> deadline (h a)"
      by (simp add: not_less)
    with False Cons show ?thesis
      by (simp add: insert_by_deadline_def list_is_empty_def list_front_def
          insert_after_node_split)
  qed
qed

lemma insert_by_deadline_not_empty: "insert_by_deadline h a l \<noteq> []"
  by (simp add: insert_by_deadline_split)

lemma sorted_dropWhile_above:
  fixes f :: "'a \<Rightarrow> 'b::linorder"
  assumes "sorted (map f l)"
  shows "\<forall>b \<in> set (dropWhile (\<lambda>b. f b \<le> x) l). x < f b"
  using assms
proof (induction l)
  case Nil
  show ?case by simp
next
  case (Cons y ys)
  show ?case
  proof (cases "f y \<le> x")
    case True
    then show ?thesis
      using Cons by simp
  next
    case False
    then have "x < f y" by simp
    moreover have "\<forall>b \<in> set ys. f y \<le> f b"
      using Cons.prems by simp
    ultimately show ?thesis
      using False by auto
  qed
qed

lemma sorted_insert_split:
  fixes f :: "'a \<Rightarrow> 'b::linorder"
  assumes "sorted (map f l)"
  shows "sorted (map f (takeWhile (\<lambda>b. f b \<le> f a) l @ a # dropWhile (\<lambda>b. f b \<le> f a) l))"
proof -
  let ?pre = "takeWhile (\<lambda>b. f b \<le> f a) l" and ?post = "dropWhile (\<lambda>b. f b \<le> f a) l"
  have l: "l = ?pre @ ?post" by simp
  have "sorted (map f ?pre @ map f ?post)"
    using assms by (simp flip: map_append)
  then have sp: "sorted (map f ?pre)" and st: "sorted (map f ?post)"
    by (simp_all add: sorted_append)
  have below: "\<forall>b \<in> set ?pre. f b \<le> f a"
    by (auto dest: set_takeWhileD)
  have above: "\<forall>b \<in> set ?post. f a < f b"
    by (rule sorted_dropWhile_above [OF assms])
  show ?thesis
    using sp st below above by (fastforce simp: sorted_append)
qed

lemma schedule_next_instance_effect:
  assumes "alarms s = Some l"
  shows "\<exists>s'. schedule_next_instance c e a s = Some s'
      \<and> heap s' = (heap s)(a := (heap s a)\<lparr>deadline := next_deadline (clock_ms c) (heap s a)\<rparr>)
      \<and> alarms s' = Some (insert_by_deadline
            ((heap s)(a := (heap s a)\<lparr>deadline := next_deadline (clock_ms c) (heap s a)\<rparr>)) a
            (if callback (heap s a) \<noteq> None then list_remove l a else l))"
proof -
  define h where "h = (heap s)(a := (heap s a)\<lparr>deadline := next_deadline (clock_ms c) (heap s a)\<rparr>)"
  define l1 where "l1 = (if callback (heap s a) \<noteq> None then list_remove l a else l)"
  define s2 where "s2 = s\<lparr>queues := (if callback (heap s a) \<noteq> None
                               then remove_queued_instances (queue (heap s a)) a (queues s)
                               else queues s),
                    heap := h,
                    alarms := Some (insert_by_deadline h a l1)\<rparr>"
  have r: "schedule_next_instance c e a s =
           (if (l \<noteq> [] \<and> hd l = a) \<or> hd (insert_by_deadline h a l1) = a \<and> insert_by_deadline h a l1 \<noteq> []
            then reschedule_root_alarm e s2 else Some s2)"
    unfolding h_def l1_def s2_def by (rule schedule_next_instance_result [OF assms])
  have f2: "alarms s2 = Some (insert_by_deadline h a l1)" "heap s2 = h"
    by (simp_all add: s2_def)
  obtain s3 where s3: "reschedule_root_alarm e s2 = Some s3"
    using reschedule_root_alarm_total [OF f2(1)] by blast
  have "schedule_next_instance c e a s = Some s3 \<or> schedule_next_instance c e a s = Some s2"
    unfolding r s3 by simp
  then show ?thesis
    using f2 reschedule_root_alarm_frame [OF s3]
    unfolding h_def [symmetric] l1_def [symmetric] by auto
qed

lemma schedule_next_instance_sorted:
  assumes "alarms s = Some l" and "pending_sorted (heap s) l" and "distinct l"
    and "callback (heap s a) \<noteq> None \<or> a \<notin> set l"
  shows "\<exists>s' pre post. schedule_next_instance c e a s = Some s'
          \<and> alarms s' = Some (pre @ a # post)
          \<and> pre @ post = remove1 a l
          \<and> (\<forall>b \<in> set pre. deadline (heap s' b) \<le> deadline (heap s' a))
          \<and> (\<forall>b \<in> set post. deadline (heap s' a) < deadline (heap s' b))
          \<and> pending_sorted (heap s') (pre @ a # post)
          \<and> distinct (pre @ a # post)
          \<and> heap s' = (heap s)(a := (heap s a)\<lparr>deadline := next_deadline (clock_ms c) (heap s a)\<rparr>)"
proof -
  define h where "h = (heap s)(a := (heap s a)\<lparr>deadline := next_deadline (clock_ms c) (heap s a)\<rparr>)"
  define l1 where "l1 = (if callback (heap s a) \<noteq> None then list_remove l a else l)"
  define P where "P = (\<lambda>b. deadline (h b) \<le> deadline (h a))"
  obtain s' where s': "schedule_next_instance c e a s = Some s'"
    and hs': "heap s' = h" and as': "alarms s' = Some (insert_by_deadline h a l1)"
    using schedule_next_instance_effect [OF assms(1), of c e a]
    unfolding h_def [symmetric] l1_def [symmetric] by blast
  have l1: "l1 = remove1 a l"
    using assms(4) by (auto simp: l1_def list_remove_def remove1_idem)
  have notin: "a \<notin> set l1"
    using assms(3) by (simp add: l1)
  have same: "map (\<lambda>b. deadline (h b)) l1 = map (\<lambda>b. deadline (heap s b)) l1"
    using notin by (auto simp: h_def)
  have "sorted (map (\<lambda>b. deadline (heap s b)) l1)"
    using assms(2) unfolding l1 pending_sorted_iff by (rule sorted_map_remove1)
  then have sorted1: "sorted (map (\<lambda>b. deadline (h b)) l1)"
    by (simp only: same)
  have split: "insert_by_deadline h a l1 = takeWhile P l1 @ a # dropWhile P l1"
    unfolding P_def by (rule insert_by_deadline_split)
  have below: "\<forall>b \<in> set (takeWhile P l1). deadline (h b) \<le> deadline (h a)"
    by (auto simp: P_def dest: set_takeWhileD)
  have above: "\<forall>b \<in> set (dropWhile P l1). deadline (h a) < deadline (h b)"
    unfolding P_def by (rule sorted_dropWhile_above [OF sorted1])
  have sorted2: "pending_sorted h (takeWhile P l1 @ a # dropWhile P l1)"
    unfolding pending_sorted_iff P_def by (rule sorted_insert_split [OF sorted1])
  have "distinct (takeWhile P l1 @ dropWhile P l1)"
    using assms(3) by (simp add: l1)
  then have parts: "distinct (takeWhile P l1)" "distinct (dropWhile P l1)"
      "set (takeWhile P l1) \<inter> set (dropWhile P l1) = {}"
    unfolding distinct_append by blast+
  have "a \<notin> set (takeWhile P l1)" "a \<notin> set (dropWhile P l1)"
    using notin set_takeWhileD [of a P l1] set_dropWhileD [of a P l1] by blast+
  with parts have dist: "distinct (takeWhile P l1 @ a # dropWhile P l1)"
    unfolding distinct_append distinct.simps set_simps by blast
  have "schedule_next_instance c e a s = Some s'
          \<and> alarms s' = Some (takeWhile P l1 @ a # dropWhile P l1)
          \<and> takeWhile P l1 @ dropWhile P l1 = remove1 a l
          \<and> (\<forall>b \<in> set (takeWhile P l1). deadline (heap s' b) \<le> deadline (heap s' a))
          \<and> (\<forall>b \<in> set (dropWhile P l1). deadline (heap s' a) < deadline (heap s' b))
          \<and> pending_sorted (heap s') (takeWhile P l1 @ a # dropWhile P l1)
          \<and> distinct (takeWhile P l1 @ a # dropWhile P l1)
          \<and> heap s' = h"
    using s' as' split below above sorted2 dist by (simp add: hs' l1)
  then show ?thesis
    unfolding h_def by blast
qed

lemma list_remove_sorted:
  assumes "pending_sorted h l"
  shows "pending_sorted h (list_remove l b)"
  using assms unfolding pending_sorted_iff list_remove_def by (rule sorted_map_remove1)

lemma alarm_cancel_internal_sorted:
  assumes "alarms s = Some l" and "pending_sorted (heap s) l" and "distinct l"
  shows "\<exists>s' l'. alarm_cancel_internal e b s = Some s' \<and> alarms s' = Some l'
             \<and> pending_sorted (heap s') l' \<and> distinct l'"
proof -
  define s2 where "s2 = s\<lparr>alarms := Some (remove1 b l),
                queues := remove_queued_instances (queue (heap s b)) b (queues s),
                heap := (heap s)(b := cancel_fields (heap s b))\<rparr>"
  have f2: "alarms s2 = Some (remove1 b l)" "heap s2 = (heap s)(b := cancel_fields (heap s b))"
    by (simp_all add: s2_def)
  obtain s3 where s3: "reschedule_root_alarm e s2 = Some s3"
    using reschedule_root_alarm_total [OF f2(1)] by blast
  have "alarm_cancel_internal e b s = Some s3 \<or> alarm_cancel_internal e b s = Some s2"
    unfolding alarm_cancel_internal_unfold [OF assms(1)] s2_def [symmetric] s3 by simp
  then obtain s' where s': "alarm_cancel_internal e b s = Some s'"
    and fs: "alarms s' = Some (remove1 b l)" "heap s' = (heap s)(b := cancel_fields (heap s b))"
    using f2 reschedule_root_alarm_frame [OF s3] by auto
  have "b \<notin> set (remove1 b l)"
    using assms(3) by simp
  then have "map (\<lambda>x. deadline (heap s' x)) (remove1 b l)
      = map (\<lambda>x. deadline (heap s x)) (remove1 b l)"
    by (auto simp: fs)
  moreover have "sorted (map (\<lambda>x. deadline (heap s x)) (remove1 b l))"
    using assms(2) unfolding pending_sorted_iff by (rule sorted_map_remove1)
  ultimately have "pending_sorted (heap s') (remove1 b l)"
    by (simp only: pending_sorted_iff)
  then show ?thesis
    using s' fs assms(3) by auto
qed

lemma pending_sorted_cong:
  assumes "\<And>b. deadline (h b) = deadline (h' b)"
  shows "pending_sorted h l = pending_sorted h' l"
  by (simp add: pending_sorted_iff assms)

lemma alarm_set_internal_unfold:
  assumes "alarms s = Some l"
  shows "alarm_set_internal c0 c1 e (Some a) per (Some cb) dat q s =
     Option.bind
       (schedule_next_instance c1 e a
          (s\<lparr>heap := (heap s)(a := (heap s a)\<lparr>creation_time := clock_ms c0, period := per,
                         queue := q, callback := Some cb, data := dat\<rparr>)\<rparr>))
       (\<lambda>s2. Some (s2\<lparr>heap := (heap s2)(a := bump_scheduled (heap s2 a))\<rparr>))"
  using assms by (simp add: alarm_set_internal_def now_def Let_def)

lemma alarm_set_internal_sorted:
  assumes "alarms s = Some l" and "pending_sorted (heap s) l" and "distinct l"
  shows "\<exists>s' pre post. alarm_set_internal c0 c1 e (Some a) per (Some cb) dat q s = Some s'
          \<and> alarms s' = Some (pre @ a # post)
          \<and> pre @ post = remove1 a l
          \<and> (\<forall>b \<in> set pre. deadline (heap s' b) \<le> deadline (heap s' a))
          \<and> (\<forall>b \<in> set post. deadline (heap s' a) < deadline (heap s' b))
          \<and> pending_sorted (heap s') (pre @ a # post)
          \<and> distinct (pre @ a # post)"
proof -
  define s1 where "s1 = s\<lparr>heap := (heap s)(a := (heap s a)\<lparr>creation_time := clock_ms c0,
      period := per, queue := q, callback := Some cb, data := dat\<rparr>)\<rparr>"
  have a1: "alarms s1 = Some l" and cb1: "callback (heap s1 a) \<noteq> None \<or> a \<notin> set l"
    using assms(1) by (simp_all add: s1_def)
  have "\<And>b. deadline (heap s1 b) = deadline (heap s b)"
    by (simp add: s1_def)
  then have sorted1: "pending_sorted (heap s1) l"
    using assms(2) pending_sorted_cong [of "heap s1" "heap s" l] by simp
  obtain s2 pre post where s2: "schedule_next_instance c1 e a s1 = Some s2"
    and r: "alarms s2 = Some (pre @ a # post)" "pre @ post = remove1 a l"
      "\<forall>b \<in> set pre. deadline (heap s2 b) \<le> deadline (heap s2 a)"
      "\<forall>b \<in> set post. deadline (heap s2 a) < deadline (heap s2 b)"
      "pending_sorted (heap s2) (pre @ a # post)" "distinct (pre @ a # post)"
    using schedule_next_instance_sorted [OF a1 sorted1 assms(3) cb1, of c1 e] by blast
  define s' where "s' = s2\<lparr>heap := (heap s2)(a := bump_scheduled (heap s2 a))\<rparr>"
  have d: "\<And>b. deadline (heap s' b) = deadline (heap s2 b)"
    by (simp add: s'_def bump_scheduled_def)
  have "alarm_set_internal c0 c1 e (Some a) per (Some cb) dat q s = Some s'"
    unfolding alarm_set_internal_unfold [OF assms(1)] s1_def [symmetric] s2 s'_def by simp
  moreover have "alarms s' = Some (pre @ a # post)"
    using r(1) by (simp add: s'_def)
  moreover have "pending_sorted (heap s') (pre @ a # post)"
    using r(5) pending_sorted_cong [of "heap s'" "heap s2"] d by simp
  moreover have "\<forall>b \<in> set pre. deadline (heap s' b) \<le> deadline (heap s' a)"
      "\<forall>b \<in> set post. deadline (heap s' a) < deadline (heap s' b)"
    using r(3,4) by (simp_all only: d)
  ultimately show ?thesis
    using r(2,6) by blast
qed

lemma dispatch_wakeup_due:
  assumes "alarms s = Some l" and "l \<noteq> []"
    and "\<not> clock_ms (check_clock w) < deadline (heap s (hd l))"
  shows "dispatch_wakeup w s =
    Option.bind
      (if is_periodic (heap s (hd l))
       then Option.bind
              (schedule_next_instance (sched_clock w) (sched_env w) (hd l)
                 (s\<lparr>alarms := Some (list_remove l (hd l)),
                    heap := (heap s)(hd l := (heap s (hd l))\<lparr>prev_deadline := deadline (heap s (hd l))\<rparr>)\<rparr>))
              (\<lambda>v. Some (v\<lparr>heap := (heap v)(hd l := bump_rescheduled (heap v (hd l)))\<rparr>))
       else Some (s\<lparr>alarms := Some (list_remove l (hd l))\<rparr>))
      (\<lambda>s2. Option.bind (reschedule_root_alarm (root_env w) s2)
         (\<lambda>s3. Option.bind (fixed_queue_enqueue (queue (heap s3 (hd l))) (hd l) (queues s3))
            (\<lambda>qs. Some (s3\<lparr>queues := qs\<rparr>))))"
  unfolding dispatch_wakeup_def Let_def
  using assms by (simp add: list_is_empty_def list_front_def cong: if_cong)

lemma dispatch_wakeup_sorted:
  assumes "alarms s = Some l" and "pending_sorted (heap s) l" and "distinct l"
    and "dispatch_wakeup w s = Some s'"
  shows "\<exists>l'. alarms s' = Some l' \<and> pending_sorted (heap s') l' \<and> distinct l'"
proof (cases "l = [] \<or> clock_ms (check_clock w) < deadline (heap s (hd l))")
  case True
  from assms(4) [unfolded dispatch_wakeup_not_due [OF assms(1) True]]
  show ?thesis
    using reschedule_root_alarm_frame [of "root_env w" s s'] assms(1,2,3) by simp
next
  case False
  define a where "a = hd l"
  define s1 where "s1 = s\<lparr>alarms := Some (list_remove l a)\<rparr>"
  have a1: "alarms s1 = Some (list_remove l a)" "heap s1 = heap s"
    by (simp_all add: s1_def)
  have sorted1: "pending_sorted (heap s1) (list_remove l a)"
    using list_remove_sorted [OF assms(2)] a1 by simp
  have dist1: "distinct (list_remove l a)" and notin: "a \<notin> set (list_remove l a)"
    using assms(3) by (simp_all add: list_remove_def)
  have due: "l \<noteq> []" "\<not> clock_ms (check_clock w) < deadline (heap s (hd l))"
    using False by simp_all
  obtain s2 s3 qs where
    s2: "(if is_periodic (heap s a)
          then Option.bind
                 (schedule_next_instance (sched_clock w) (sched_env w) a
                    (s\<lparr>alarms := Some (list_remove l a),
                       heap := (heap s)(a := (heap s a)\<lparr>prev_deadline := deadline (heap s a)\<rparr>)\<rparr>))
                 (\<lambda>v. Some (v\<lparr>heap := (heap v)(a := bump_rescheduled (heap v a))\<rparr>))
          else Some (s\<lparr>alarms := Some (list_remove l a)\<rparr>)) = Some s2"
    and s3: "reschedule_root_alarm (root_env w) s2 = Some s3"
    and s': "s' = s3\<lparr>queues := qs\<rparr>"
    using assms(4) unfolding dispatch_wakeup_due [OF assms(1) due] a_def
    by (auto simp: bind_eq_Some_conv)
  have "\<exists>l2. alarms s2 = Some l2 \<and> pending_sorted (heap s2) l2 \<and> distinct l2"
  proof (cases "is_periodic (heap s a)")
    case False
    with s2 have "s2 = s1" by (simp add: s1_def)
    then show ?thesis
      using a1 sorted1 dist1 by simp
  next
    case True
    define u where "u = s\<lparr>alarms := Some (list_remove l a),
                       heap := (heap s)(a := (heap s a)\<lparr>prev_deadline := deadline (heap s a)\<rparr>)\<rparr>"
    have au: "alarms u = Some (list_remove l a)"
      by (simp add: u_def)
    have "\<And>b. deadline (heap u b) = deadline (heap s1 b)"
      by (simp add: u_def s1_def)
    then have su: "pending_sorted (heap u) (list_remove l a)"
      using sorted1 pending_sorted_cong [of "heap u" "heap s1"] by simp
    obtain v pre post where v: "schedule_next_instance (sched_clock w) (sched_env w) a u = Some v"
      and r: "alarms v = Some (pre @ a # post)"
        "pending_sorted (heap v) (pre @ a # post)" "distinct (pre @ a # post)"
      using schedule_next_instance_sorted [OF au su dist1, of a "sched_clock w" "sched_env w"] notin
      by blast
    have s2eq: "s2 = v\<lparr>heap := (heap v)(a := bump_rescheduled (heap v a))\<rparr>"
      using s2 True v by (simp add: u_def)
    have "\<And>b. deadline (heap s2 b) = deadline (heap v b)"
      by (simp add: s2eq bump_rescheduled_def)
    then have "pending_sorted (heap s2) (pre @ a # post)"
      using r(2) pending_sorted_cong [of "heap s2" "heap v"] by simp
    then show ?thesis
      using r(1,3) by (simp add: s2eq)
  qed
  then show ?thesis
    using reschedule_root_alarm_frame [OF s3] by (simp add: s')
qed

lemma alarm_queue_ready_sorted:
  assumes "alarms s = Some l" and "pending_sorted (heap s) l"
    and "alarm_queue_ready (Some k) s = Some (s', call)"
    and "queues s k = [] \<or> is_periodic (heap s (hd (queues s k))) \<or> hd (queues s k) \<notin> set l"
  shows "alarms s' = Some l \<and> pending_sorted (heap s') l"
proof (cases "queues s k")
  case Nil
  with assms(3) have "alarms s' = alarms s" and "heap s' = heap s"
    by (auto simp: alarm_queue_ready_def fixed_queue_try_dequeue_def)
  with assms(1,2) show ?thesis
    by simp
next
  case (Cons b rest)
  with assms(3) have a': "alarms s' = alarms s"
    and h': "heap s' = (if is_periodic (heap s b) then heap s
               else (heap s)(b := (heap s b)\<lparr>deadline := 0, callback := None, data := None\<rparr>))"
    by (auto simp: alarm_queue_ready_def fixed_queue_try_dequeue_def Let_def)
  from assms(4) Cons have "is_periodic (heap s b) \<or> b \<notin> set l"
    by simp
  then have "map (\<lambda>x. deadline (heap s' x)) l = map (\<lambda>x. deadline (heap s x)) l"
    by (auto simp: h')
  then have "pending_sorted (heap s') l"
    using assms(2) by (simp only: pending_sorted_iff)
  with a' assms(1) show ?thesis
    by simp
qed

text \<open>
  One step keeps the order. Let the pending list be sorted by deadline and hold no alarm
  twice. Then

  \<^item> \<open>schedule_next_instance\<close>, called as its callers call it (the alarm has a callback, so it
    is removed first, or it is not in the list), returns with the alarm in the list once, behind every
    entry whose deadline is earlier or the same and in front of every entry whose deadline
    is later, the other entries in their old order, and the list sorted;
  \<^item> \<open>alarm_set_internal\<close> does the same for any alarm;
  \<^item> the list is sorted after \<open>list_remove\<close> of any alarm, and sorted and without
    duplicates after \<open>alarm_cancel_internal\<close> and after a wake-up of the dispatcher;
  \<^item> the list is the same and sorted after the worker-queue handler, which writes the
    deadline of the one-shot alarm it dequeues, when that alarm is not in the pending list.
\<close>

theorem pending_list_stays_sorted:
  assumes "alarms s = Some l" and "pending_sorted (heap s) l" and "distinct l"
  shows "(callback (heap s a) \<noteq> None \<or> a \<notin> set l \<longrightarrow>
           (\<exists>s' pre post. schedule_next_instance c e a s = Some s'
              \<and> alarms s' = Some (pre @ a # post)
              \<and> pre @ post = remove1 a l
              \<and> (\<forall>b \<in> set pre. deadline (heap s' b) \<le> deadline (heap s' a))
              \<and> (\<forall>b \<in> set post. deadline (heap s' a) < deadline (heap s' b))
              \<and> pending_sorted (heap s') (pre @ a # post)
              \<and> distinct (pre @ a # post)))
       \<and> (\<exists>s' pre post. alarm_set_internal c0 c e (Some a) per (Some cb) dat q s = Some s'
              \<and> alarms s' = Some (pre @ a # post)
              \<and> pre @ post = remove1 a l
              \<and> (\<forall>b \<in> set pre. deadline (heap s' b) \<le> deadline (heap s' a))
              \<and> (\<forall>b \<in> set post. deadline (heap s' a) < deadline (heap s' b))
              \<and> pending_sorted (heap s') (pre @ a # post)
              \<and> distinct (pre @ a # post))
       \<and> pending_sorted (heap s) (list_remove l b)
       \<and> (\<exists>s' l'. alarm_cancel_internal e b s = Some s' \<and> alarms s' = Some l'
              \<and> pending_sorted (heap s') l' \<and> distinct l')
       \<and> (\<forall>s'. dispatch_wakeup w s = Some s' \<longrightarrow>
              (\<exists>l'. alarms s' = Some l' \<and> pending_sorted (heap s') l' \<and> distinct l'))
       \<and> (\<forall>s' call. alarm_queue_ready (Some k) s = Some (s', call)
              \<and> (queues s k = [] \<or> is_periodic (heap s (hd (queues s k)))
                   \<or> hd (queues s k) \<notin> set l) \<longrightarrow>
              alarms s' = Some l \<and> pending_sorted (heap s') l)"
proof (intro conjI impI allI)
  assume "callback (heap s a) \<noteq> None \<or> a \<notin> set l"
  from schedule_next_instance_sorted [OF assms this, of c e]
  show "\<exists>s' pre post. schedule_next_instance c e a s = Some s'
              \<and> alarms s' = Some (pre @ a # post)
              \<and> pre @ post = remove1 a l
              \<and> (\<forall>b \<in> set pre. deadline (heap s' b) \<le> deadline (heap s' a))
              \<and> (\<forall>b \<in> set post. deadline (heap s' a) < deadline (heap s' b))
              \<and> pending_sorted (heap s') (pre @ a # post)
              \<and> distinct (pre @ a # post)"
    by blast
next
  show "\<exists>s' pre post. alarm_set_internal c0 c e (Some a) per (Some cb) dat q s = Some s'
              \<and> alarms s' = Some (pre @ a # post)
              \<and> pre @ post = remove1 a l
              \<and> (\<forall>b \<in> set pre. deadline (heap s' b) \<le> deadline (heap s' a))
              \<and> (\<forall>b \<in> set post. deadline (heap s' a) < deadline (heap s' b))
              \<and> pending_sorted (heap s') (pre @ a # post)
              \<and> distinct (pre @ a # post)"
    by (rule alarm_set_internal_sorted [OF assms])
next
  show "pending_sorted (heap s) (list_remove l b)"
    by (rule list_remove_sorted [OF assms(2)])
next
  show "\<exists>s' l'. alarm_cancel_internal e b s = Some s' \<and> alarms s' = Some l'
              \<and> pending_sorted (heap s') l' \<and> distinct l'"
    by (rule alarm_cancel_internal_sorted [OF assms])
next
  fix s' assume "dispatch_wakeup w s = Some s'"
  then show "\<exists>l'. alarms s' = Some l' \<and> pending_sorted (heap s') l' \<and> distinct l'"
    by (rule dispatch_wakeup_sorted [OF assms])
next
  fix s' call
  assume h: "alarm_queue_ready (Some k) s = Some (s', call)
      \<and> (queues s k = [] \<or> is_periodic (heap s (hd (queues s k)))
           \<or> hd (queues s k) \<notin> set l)"
  from alarm_queue_ready_sorted [OF assms(1,2), of k s' call] h
  show "alarms s' = Some l" and "pending_sorted (heap s') l"
    by blast+
qed

lemma alarm_set_internal_alarms:
  assumes "alarms s = Some l"
  shows "map_option alarms (alarm_set_internal c0 c1 e (Some a) per (Some cb) dat q s) =
    Some (Some (insert_by_deadline
      ((heap s)(a := (heap s a)\<lparr>creation_time := clock_ms c0, period := per, queue := q,
          callback := Some cb, data := dat,
          deadline := next_deadline (clock_ms c1)
             ((heap s a)\<lparr>creation_time := clock_ms c0, period := per\<rparr>)\<rparr>))
      a (list_remove l a)))"
proof -
  define s1 where "s1 = s\<lparr>heap := (heap s)(a := (heap s a)\<lparr>creation_time := clock_ms c0,
      period := per, queue := q, callback := Some cb, data := dat\<rparr>)\<rparr>"
  have a1: "alarms s1 = Some l"
    using assms by (simp add: s1_def)
  have nd: "next_deadline (clock_ms c1) (heap s1 a)
      = next_deadline (clock_ms c1) ((heap s a)\<lparr>creation_time := clock_ms c0, period := per\<rparr>)"
    by (simp add: s1_def next_deadline_def)
  obtain s2 where s2: "schedule_next_instance c1 e a s1 = Some s2"
    and as2: "alarms s2 = Some (insert_by_deadline
            ((heap s1)(a := (heap s1 a)\<lparr>deadline := next_deadline (clock_ms c1) (heap s1 a)\<rparr>)) a
            (if callback (heap s1 a) \<noteq> None then list_remove l a else l))"
    using schedule_next_instance_effect [OF a1, of c1 e a] by blast
  have "alarm_set_internal c0 c1 e (Some a) per (Some cb) dat q s
      = Some (s2\<lparr>heap := (heap s2)(a := bump_scheduled (heap s2 a))\<rparr>)"
    unfolding alarm_set_internal_unfold [OF assms] s1_def [symmetric] s2 by simp
  then show ?thesis
    using as2 unfolding nd by (simp add: s1_def)
qed

lemma equal_deadline_goes_behind_example:
  "map_option alarms
     (alarm_set_internal (at_ms 0) (at_ms 0) (os_ok 0) (Some 3) 100 (Some 7) None (Some 0)
        (pending_state [1, 2]
           (heap_of [(1, armed_alarm False 0 100 100), (2, armed_alarm False 0 200 200)])))
   = Some (Some [1, 3, 2])"
proof -
  have "alarms (pending_state [1, 2]
           (heap_of [(1, armed_alarm False 0 100 100), (2, armed_alarm False 0 200 200)]))
        = Some [1, 2]"
    by (simp add: pending_state_def)
  from alarm_set_internal_alarms [OF this, where a = 3 and ?c0.0 = "at_ms 0" and ?c1.0 = "at_ms 0"
      and e = "os_ok 0" and per = 100 and cb = 7 and dat = None and q = "Some 0"]
  show ?thesis
    by (simp add: example_defs heap_of_def clock_ms_at_ms next_deadline_def
        insert_by_deadline_def list_is_empty_def list_front_def list_prepend_def list_remove_def)
qed

theorem pending_list_stays_sorted_witness:
  "\<exists>s'. alarm_set_internal (at_ms 0) (at_ms 0) (os_ok 0) (Some 3) 100 (Some 7) None (Some 0)
          (pending_state [1, 2]
             (heap_of [(1, armed_alarm False 0 100 100), (2, armed_alarm False 0 200 200)]))
        = Some s'
      \<and> alarms s' = Some [1, 3, 2]
      \<and> pending_sorted (heap s') [1, 3, 2]"
proof -
  define s where "s = pending_state [1, 2]
             (heap_of [(1, armed_alarm False 0 100 100), (2, armed_alarm False 0 200 200)])"
  have a: "alarms s = Some [1, 2]"
    by (simp add: s_def example_defs)
  have p: "pending_sorted (heap s) [1, 2]"
    by (simp add: s_def example_defs heap_of_def)
  have d: "distinct [1, 2 :: nat]"
    by simp
  from pending_list_stays_sorted [OF a p d, of 3 "at_ms 0" "os_ok 0" "at_ms 0" 100 7 None "Some 0"]
  obtain s' pre post where
    s': "alarm_set_internal (at_ms 0) (at_ms 0) (os_ok 0) (Some 3) 100 (Some 7) None (Some 0) s = Some s'"
    and r: "alarms s' = Some (pre @ 3 # post)" "pending_sorted (heap s') (pre @ 3 # post)"
    by blast
  from equal_deadline_goes_behind_example s' have "alarms s' = Some [1, 3, 2]"
    by (simp add: s_def)
  with s' r show ?thesis
    unfolding s_def by auto
qed

subsection \<open>The account of the wake lock\<close>

lemma wake_policy_acquires:
  assumes "alarms s = Some l0" and "wake_policy e s l = Some (t, acq, wk)"
  shows "(acq \<noteq> None) = (\<not> timer_set s \<and> (t \<noteq> zero_time \<or> acq \<noteq> None))"
    and "t \<noteq> zero_time \<and> \<not> timer_set s \<longrightarrow> acq = Some BT_STATUS_SUCCESS"
    and "l = [] \<longrightarrow> t = zero_time"
    and "acq \<noteq> None \<and> acq \<noteq> Some BT_STATUS_SUCCESS \<longrightarrow> t = zero_time"
  using assms
  by (cases "l = []"; auto simp: wake_policy_empty wake_policy_nonempty split: if_splits)+

lemma reschedule_root_alarm_accounted:
  assumes "wake_lock_accounted s" and "reschedule_root_alarm e s = Some s'"
  shows "wake_lock_accounted s'"
proof -
  obtain l where l: "alarms s = Some l"
    using assms(2) by (cases "alarms s") (simp_all add: reschedule_root_alarm_def)
  obtain t acq wk where wp: "wake_policy e s l = Some (t, acq, wk)"
    using wake_policy_total [OF l, of e l] by (metis prod_cases3)
  note w = wake_policy_acquires [OF l wp]
  have s': "s' = s\<lparr>timer := t,
             timer_set := (t \<noteq> zero_time),
             alarm_expired := alarm_expired s + (if t \<noteq> zero_time \<and> timer_gettime_zero e then 1 else 0),
             reevals := reevals s @
                [\<lparr>acquired = acq, wake_alarm = wk, released = (timer_set s \<and> t = zero_time),
                  armed = t, posted = (t \<noteq> zero_time \<and> timer_gettime_zero e)\<rparr>]\<rparr>"
    using assms(2) unfolding reschedule_root_alarm_unfold [OF l wp] by simp
  show ?thesis
    using assms(1) w(1,2,4)
    unfolding wake_lock_accounted_def granted_acquires_def release_calls_def unarmed_grants_def s'
    by (cases "timer_set s"; cases "t = zero_time"; cases acq) auto
qed

lemma reschedule_root_alarm_idle:
  assumes "reschedule_root_alarm e s = Some s'"
  shows "idle_unlocked s'"
proof -
  obtain l where l: "alarms s = Some l"
    using assms by (cases "alarms s") (simp_all add: reschedule_root_alarm_def)
  obtain t acq wk where wp: "wake_policy e s l = Some (t, acq, wk)"
    using wake_policy_total [OF l, of e l] by (metis prod_cases3)
  show ?thesis
    using assms wake_policy_acquires(3) [OF l wp] l
    unfolding reschedule_root_alarm_unfold [OF l wp] idle_unlocked_def by auto
qed

lemma wake_lock_accounted_cong:
  assumes "reevals s' = reevals s" and "timer_set s' = timer_set s"
  shows "wake_lock_accounted s' = wake_lock_accounted s"
  by (simp add: wake_lock_accounted_def granted_acquires_def release_calls_def
      unarmed_grants_def assms)

lemma schedule_next_instance_wake_lock:
  assumes "wake_lock_accounted s" and "schedule_next_instance c e a s = Some s'"
  shows "wake_lock_accounted s' \<and> idle_unlocked s'"
proof -
  obtain l where l: "alarms s = Some l"
    using assms(2) by (cases "alarms s") (simp_all add: schedule_next_instance_def)
  define h where "h = (heap s)(a := (heap s a)\<lparr>deadline := next_deadline (clock_ms c) (heap s a)\<rparr>)"
  define l1 where "l1 = (if callback (heap s a) \<noteq> None then list_remove l a else l)"
  define s2 where "s2 = s\<lparr>queues := (if callback (heap s a) \<noteq> None
                               then remove_queued_instances (queue (heap s a)) a (queues s)
                               else queues s),
                    heap := h,
                    alarms := Some (insert_by_deadline h a l1)\<rparr>"
  have r: "schedule_next_instance c e a s =
           (if (l \<noteq> [] \<and> hd l = a) \<or> hd (insert_by_deadline h a l1) = a \<and> insert_by_deadline h a l1 \<noteq> []
            then reschedule_root_alarm e s2 else Some s2)"
    unfolding h_def l1_def s2_def by (rule schedule_next_instance_result [OF l])
  have acc2: "wake_lock_accounted s2"
    using assms(1) wake_lock_accounted_cong [of s2 s] by (simp add: s2_def)
  have idle2: "idle_unlocked s2"
    by (simp add: idle_unlocked_def s2_def insert_by_deadline_not_empty)
  from assms(2) [unfolded r]
  have "reschedule_root_alarm e s2 = Some s' \<or> s' = s2"
    by (auto split: if_splits)
  then show ?thesis
    using acc2 idle2 reschedule_root_alarm_accounted [of s2 e s'] reschedule_root_alarm_idle [of e s2 s']
    by auto
qed

lemma alarm_set_on_queue_wake_lock:
  assumes "wake_lock_accounted s"
    and "alarm_set_on_queue c0 c1 e (Some a) per (Some cb) dat (Some q) s = Some s'"
  shows "wake_lock_accounted s' \<and> idle_unlocked s'"
proof -
  obtain l where l: "alarms s = Some l"
    using assms(2)
    by (cases "alarms s") (simp_all add: alarm_set_on_queue_def alarm_set_internal_def)
  define s1 where "s1 = s\<lparr>heap := (heap s)(a := (heap s a)\<lparr>creation_time := clock_ms c0,
      period := per, queue := Some q, callback := Some cb, data := dat\<rparr>)\<rparr>"
  have acc1: "wake_lock_accounted s1"
    using assms(1) wake_lock_accounted_cong [of s1 s] by (simp add: s1_def)
  from assms(2) obtain s2 where s2: "schedule_next_instance c1 e a s1 = Some s2"
    and s': "s' = s2\<lparr>heap := (heap s2)(a := bump_scheduled (heap s2 a))\<rparr>"
    unfolding alarm_set_on_queue_def alarm_set_internal_unfold [OF l] s1_def [symmetric]
    by (auto simp: bind_eq_Some_conv)
  from schedule_next_instance_wake_lock [OF acc1 s2]
  show ?thesis
    using wake_lock_accounted_cong [of s' s2] by (simp add: s' idle_unlocked_def)
qed

lemma alarm_cancel_wake_lock:
  assumes "wake_lock_accounted s" and "idle_unlocked s"
    and "alarm_cancel e (Some a) s = Some s'"
  shows "wake_lock_accounted s' \<and> idle_unlocked s'"
proof -
  obtain l where l: "alarms s = Some l"
    using assms(3) by (cases "alarms s") (simp_all add: alarm_cancel_def)
  define s2 where "s2 = s\<lparr>alarms := Some (remove1 a l),
                queues := remove_queued_instances (queue (heap s a)) a (queues s),
                heap := (heap s)(a := cancel_fields (heap s a))\<rparr>"
  have acc2: "wake_lock_accounted s2"
    using assms(1) wake_lock_accounted_cong [of s2 s] by (simp add: s2_def)
  have c: "alarm_cancel_internal e a s = Some s'"
    using assms(3) l by (simp add: alarm_cancel_def)
  show ?thesis
  proof (cases "l \<noteq> [] \<and> hd l = a")
    case True
    then have "reschedule_root_alarm e s2 = Some s'"
      using c unfolding alarm_cancel_internal_unfold [OF l] s2_def by simp
    then show ?thesis
      using acc2 reschedule_root_alarm_accounted reschedule_root_alarm_idle by blast
  next
    case False
    then have s': "s' = s2"
      using c unfolding alarm_cancel_internal_unfold [OF l] s2_def by auto
    have "remove1 a l = [] \<longrightarrow> l = []"
      using False by (cases l) (auto split: if_splits)
    then have "idle_unlocked s2"
      using assms(2) l by (auto simp: idle_unlocked_def s2_def)
    then show ?thesis
      using acc2 s' by simp
  qed
qed

lemma dispatch_wakeup_wake_lock:
  assumes "wake_lock_accounted s" and "dispatch_wakeup w s = Some s'"
  shows "wake_lock_accounted s' \<and> idle_unlocked s'"
proof -
  obtain l where l: "alarms s = Some l"
    using assms(2) by (cases "alarms s") (simp_all add: dispatch_wakeup_def)
  show ?thesis
  proof (cases "l = [] \<or> clock_ms (check_clock w) < deadline (heap s (hd l))")
    case True
    from assms(2) [unfolded dispatch_wakeup_not_due [OF l True]]
    show ?thesis
      using assms(1) reschedule_root_alarm_accounted reschedule_root_alarm_idle by blast
  next
    case False
    then have due: "l \<noteq> []" "\<not> clock_ms (check_clock w) < deadline (heap s (hd l))"
      by simp_all
    define a where "a = hd l"
    obtain s2 s3 qs where
      s2: "(if is_periodic (heap s a)
            then Option.bind
                   (schedule_next_instance (sched_clock w) (sched_env w) a
                      (s\<lparr>alarms := Some (list_remove l a),
                         heap := (heap s)(a := (heap s a)\<lparr>prev_deadline := deadline (heap s a)\<rparr>)\<rparr>))
                   (\<lambda>v. Some (v\<lparr>heap := (heap v)(a := bump_rescheduled (heap v a))\<rparr>))
            else Some (s\<lparr>alarms := Some (list_remove l a)\<rparr>)) = Some s2"
      and s3: "reschedule_root_alarm (root_env w) s2 = Some s3"
      and s': "s' = s3\<lparr>queues := qs\<rparr>"
      using assms(2) unfolding dispatch_wakeup_due [OF l due] a_def
      by (auto simp: bind_eq_Some_conv)
    have "wake_lock_accounted s2"
    proof (cases "is_periodic (heap s a)")
      case False
      with s2 have "s2 = s\<lparr>alarms := Some (list_remove l a)\<rparr>"
        by simp
      then show ?thesis
        using assms(1) wake_lock_accounted_cong [of s2 s] by simp
    next
      case True
      define u where "u = s\<lparr>alarms := Some (list_remove l a),
                         heap := (heap s)(a := (heap s a)\<lparr>prev_deadline := deadline (heap s a)\<rparr>)\<rparr>"
      have accu: "wake_lock_accounted u"
        using assms(1) wake_lock_accounted_cong [of u s] by (simp add: u_def)
      from s2 True obtain v where
        v: "schedule_next_instance (sched_clock w) (sched_env w) a u = Some v"
        and s2eq: "s2 = v\<lparr>heap := (heap v)(a := bump_rescheduled (heap v a))\<rparr>"
        unfolding u_def by (auto simp: bind_eq_Some_conv)
      from schedule_next_instance_wake_lock [OF accu v]
      show ?thesis
        using wake_lock_accounted_cong [of s2 v] by (simp add: s2eq)
    qed
    then have "wake_lock_accounted s3" and "idle_unlocked s3"
      using s3 reschedule_root_alarm_accounted reschedule_root_alarm_idle by blast+
    then show ?thesis
      using wake_lock_accounted_cong [of s' s3] by (simp add: s' idle_unlocked_def)
  qed
qed

lemma step_wake_lock:
  assumes "wake_lock_accounted s" and "idle_unlocked s" and "step x s = Some s'"
  shows "wake_lock_accounted s' \<and> idle_unlocked s'"
proof (cases x)
  case (Set a per cb dat q c0 c1 e)
  with assms(3) have "alarm_set_on_queue c0 c1 e (Some a) per (Some cb) dat (Some q) s = Some s'"
    by simp
  then show ?thesis
    by (rule alarm_set_on_queue_wake_lock [OF assms(1)])
next
  case (Cancel a e)
  with assms(3) have "alarm_cancel e (Some a) s = Some s'"
    by simp
  then show ?thesis
    by (rule alarm_cancel_wake_lock [OF assms(1,2)])
next
  case Expire
  then have "s' = timer_callback s"
    using assms(3) by simp
  then show ?thesis
    using assms(1,2) wake_lock_accounted_cong [of s' s]
    by (simp add: timer_callback_def idle_unlocked_def)
next
  case (Dispatch w)
  define s0 where "s0 = s\<lparr>alarm_expired := alarm_expired s - 1\<rparr>"
  have acc0: "wake_lock_accounted s0" and idle0: "idle_unlocked s0"
    using assms(1,2) wake_lock_accounted_cong [of s0 s] by (simp_all add: s0_def idle_unlocked_def)
  from assms(3) Dispatch
  have "s' = s \<or> s' = s0 \<or> dispatch_wakeup w s0 = Some s'"
    by (auto simp: Let_def s0_def split: if_splits option.splits)
  then consider "s' = s" | "s' = s0" | "dispatch_wakeup w s0 = Some s'"
    by blast
  then show ?thesis
  proof cases
    case 1
    then show ?thesis using assms(1,2) by simp
  next
    case 2
    then show ?thesis using acc0 idle0 by simp
  next
    case 3
    then show ?thesis by (rule dispatch_wakeup_wake_lock [OF acc0])
  qed
next
  case (QueueReady q)
  with assms(3) have "reevals s' = reevals s \<and> timer_set s' = timer_set s \<and> alarms s' = alarms s"
    by (auto simp: alarm_queue_ready_def fixed_queue_try_dequeue_def Let_def
        split: list.splits)
  then show ?thesis
    using assms(1,2) wake_lock_accounted_cong [of s' s] by (simp add: idle_unlocked_def)
qed

lemma run_wake_lock:
  assumes "wake_lock_accounted s" and "idle_unlocked s" and "run xs s = Some s'"
  shows "wake_lock_accounted s' \<and> idle_unlocked s'"
  using assms
proof (induction xs arbitrary: s)
  case Nil
  then show ?case by simp
next
  case (Cons x xs)
  from Cons.prems(3) obtain s1 where s1: "step x s = Some s1" and r: "run xs s1 = Some s'"
    by (auto split: option.splits)
  from step_wake_lock [OF Cons.prems(1,2) s1] Cons.IH [OF _ _ r]
  show ?case by blast
qed

lemma acquire_calls_split: "acquire_calls s = granted_acquires s + failed_acquires s"
proof -
  have "length (filter (\<lambda>r. acquired r \<noteq> None) rs)
      = length (filter (\<lambda>r. acquired r = Some BT_STATUS_SUCCESS) rs)
        + length (filter (\<lambda>r. acquired r \<noteq> None \<and> acquired r \<noteq> Some BT_STATUS_SUCCESS) rs)"
    for rs :: "reeval list"
    by (induction rs) auto
  then show ?thesis
    by (simp add: acquire_calls_def granted_acquires_def failed_acquires_def)
qed

text \<open>
  Claim C1, amended. Start where the engine has made no wake-lock call yet and \<open>timer_set\<close>
  is false, as at the first initialization of the process, and run any sequence of sets,
  cancels, posts of the expiration signal, turns of the dispatcher and worker-queue handlers
  that hits no assertion and in which every granted acquisition was followed by programming
  the timer with a time other than zero. Afterwards every call of \<open>acquire_wake_lock\<close> was
  either granted or refused, and the number of granted calls is the number of calls of
  \<open>release_wake_lock\<close>, plus one if \<open>timer_set\<close> is true; when the pending list is empty
  \<open>timer_set\<close> is false and the two numbers are equal. \<open>alarm_cleanup\<close> calls neither
  \<open>acquire_wake_lock\<close> nor \<open>release_wake_lock\<close> and leaves \<open>timer_set\<close> as it is.
\<close>

theorem wake_lock_balance:
  assumes "reevals s = []" and "\<not> timer_set s" and "run xs s = Some s'"
    and "unarmed_grants s' = 0"
  shows "acquire_calls s' = granted_acquires s' + failed_acquires s'
       \<and> granted_acquires s' = release_calls s' + (if timer_set s' then 1 else 0)
       \<and> (alarms s' = Some [] \<longrightarrow>
             \<not> timer_set s' \<and> granted_acquires s' = release_calls s')
       \<and> acquire_calls (alarm_cleanup s') = acquire_calls s'
       \<and> release_calls (alarm_cleanup s') = release_calls s'
       \<and> timer_set (alarm_cleanup s') = timer_set s'"
proof -
  have start: "wake_lock_accounted s" "idle_unlocked s"
    using assms(1,2)
    by (simp_all add: wake_lock_accounted_def idle_unlocked_def granted_acquires_def
        release_calls_def unarmed_grants_def)
  have inv: "wake_lock_accounted s'" "idle_unlocked s'"
    using run_wake_lock [OF start assms(3)] by simp_all
  have cleanup: "reevals (alarm_cleanup s') = reevals s'" "timer_set (alarm_cleanup s') = timer_set s'"
    by (simp_all add: alarm_cleanup_def split: option.splits)
  have balance: "granted_acquires s' = release_calls s' + (if timer_set s' then 1 else 0)"
    using inv(1) assms(4) by (simp add: wake_lock_accounted_def)
  show ?thesis
    using balance inv(2) cleanup acquire_calls_split [of s']
    by (simp add: idle_unlocked_def acquire_calls_def release_calls_def)
qed

lemmas exec_defs =
  alarm_set_on_queue_def alarm_set_internal_def schedule_next_instance_def
  remove_pending_alarm_def now_def Let_def next_deadline_def insert_by_deadline_def
  list_is_empty_def list_front_def list_prepend_def list_remove_def
  reschedule_root_alarm_def wake_policy_def remove_queued_instances_Some
  remove_queued_instances_None clock_ms_at_ms bump_scheduled_def wakeup_time_of_def
  zero_time_def alarm_cleanup_def acquire_calls_def release_calls_def unarmed_grants_def
  granted_acquires_def failed_acquires_def
  alarm_cancel_def alarm_cancel_internal_def cancel_fields_def

theorem wake_lock_balance_witness:
  "\<exists>s'. run [Set 1 100 7 None 0 (at_ms 0) (at_ms 0) (os_ok 0), Cancel 1 (os_ok 50)]
          initialized_state = Some s'
      \<and> alarms s' = Some [] \<and> acquire_calls s' = 1 \<and> granted_acquires s' = 1
      \<and> release_calls s' = 1 \<and> timer_set s' = False"
proof -
  define xs where "xs = [Set 1 100 7 None 0 (at_ms 0) (at_ms 0) (os_ok 0), Cancel 1 (os_ok 50)]"
  have init: "reevals initialized_state = []" "\<not> timer_set initialized_state"
    by (simp_all add: initialized_state_def uninitialized_state_def)
  have "run xs initialized_state \<noteq> None"
    by (simp add: xs_def exec_defs example_defs)
  then obtain s' where s': "run xs initialized_state = Some s'"
    by blast
  then have the: "s' = the (run xs initialized_state)"
    by simp
  have ev: "alarms s' = Some []" "acquire_calls s' = 1" "failed_acquires s' = 0"
    and ug: "unarmed_grants s' = 0"
    unfolding the by (simp_all add: xs_def exec_defs example_defs)
  from wake_lock_balance [OF init s' ug] ev
  have "granted_acquires s' = 1" and "release_calls s' = 1" and "\<not> timer_set s'"
    by simp_all
  with s' ev show ?thesis
    unfolding xs_def by simp
qed

text \<open>
  Claim C1 as it was stated fails at a cleanup with the wake lock held: one alarm is set
  100 ms ahead, which acquires the wake lock; after \<open>alarm_cleanup\<close> the list is gone,
  \<open>acquire_wake_lock\<close> has been called once and \<open>release_wake_lock\<close> never.
\<close>

theorem cleanup_keeps_wake_lock_counterexample:
  "map_option timer_set
     (run [Set 1 100 7 None 0 (at_ms 0) (at_ms 0) (os_ok 0)] initialized_state) = Some True
   \<and> map_option acquire_calls (map_option alarm_cleanup
       (run [Set 1 100 7 None 0 (at_ms 0) (at_ms 0) (os_ok 0)] initialized_state)) = Some 1
   \<and> map_option release_calls (map_option alarm_cleanup
       (run [Set 1 100 7 None 0 (at_ms 0) (at_ms 0) (os_ok 0)] initialized_state)) = Some 0
   \<and> map_option alarms (map_option alarm_cleanup
       (run [Set 1 100 7 None 0 (at_ms 0) (at_ms 0) (os_ok 0)] initialized_state)) = Some None"
proof -
  define xs where "xs = [Set 1 100 7 None 0 (at_ms 0) (at_ms 0) (os_ok 0)]"
  have "run xs initialized_state \<noteq> None"
    by (simp add: xs_def exec_defs example_defs)
  then obtain s' where s': "run xs initialized_state = Some s'"
    by blast
  then have the: "s' = the (run xs initialized_state)"
    by simp
  have "timer_set s'" "acquire_calls (alarm_cleanup s') = 1"
      "release_calls (alarm_cleanup s') = 0" "alarms (alarm_cleanup s') = None"
    unfolding the by (simp_all add: xs_def exec_defs example_defs)
  then show ?thesis
    unfolding xs_def [symmetric] s' by simp
qed

subsection \<open>The dispatcher dispatches due alarms only\<close>

lemma remove_queued_instances_subset:
  "set (remove_queued_instances q a qs k) \<subseteq> set (qs k)"
  by (cases q) (auto simp: remove_queued_instances_None remove_queued_instances_Some)

lemma schedule_next_instance_queues:
  assumes "schedule_next_instance c e a s = Some s'"
  shows "set (queues s' k) \<subseteq> set (queues s k)"
proof -
  obtain l where l: "alarms s = Some l"
    using assms by (cases "alarms s") (simp_all add: schedule_next_instance_def)
  define h where "h = (heap s)(a := (heap s a)\<lparr>deadline := next_deadline (clock_ms c) (heap s a)\<rparr>)"
  define l1 where "l1 = (if callback (heap s a) \<noteq> None then list_remove l a else l)"
  define s2 where "s2 = s\<lparr>queues := (if callback (heap s a) \<noteq> None
                               then remove_queued_instances (queue (heap s a)) a (queues s)
                               else queues s),
                    heap := h,
                    alarms := Some (insert_by_deadline h a l1)\<rparr>"
  have r: "schedule_next_instance c e a s =
           (if (l \<noteq> [] \<and> hd l = a) \<or> hd (insert_by_deadline h a l1) = a \<and> insert_by_deadline h a l1 \<noteq> []
            then reschedule_root_alarm e s2 else Some s2)"
    unfolding h_def l1_def s2_def by (rule schedule_next_instance_result [OF l])
  have q2: "set (queues s2 k) \<subseteq> set (queues s k)"
    using remove_queued_instances_subset [of "queue (heap s a)" a "queues s" k]
    by (simp add: s2_def)
  from assms [unfolded r]
  have "reschedule_root_alarm e s2 = Some s' \<or> s' = s2"
    by (auto split: if_splits)
  then have "queues s' = queues s2"
    using reschedule_root_alarm_frame [of e s2 s'] by auto
  then show ?thesis
    using q2 by simp
qed

lemma dispatch_wakeup_enqueues_front_only:
  assumes "alarms s = Some l" and "dispatch_wakeup w s = Some s'"
    and "b \<in> set (queues s' k)" and "b \<notin> set (queues s k)"
  shows "l \<noteq> [] \<and> b = hd l \<and> deadline (heap s b) \<le> clock_ms (check_clock w)"
proof (cases "l = [] \<or> clock_ms (check_clock w) < deadline (heap s (hd l))")
  case True
  from assms(2) [unfolded dispatch_wakeup_not_due [OF assms(1) True]]
  have "queues s' = queues s"
    using reschedule_root_alarm_frame by blast
  with assms(3,4) show ?thesis
    by simp
next
  case False
  then have due: "l \<noteq> []" "\<not> clock_ms (check_clock w) < deadline (heap s (hd l))"
    by simp_all
  define a where "a = hd l"
  obtain s2 s3 qs where
    s2: "(if is_periodic (heap s a)
          then Option.bind
                 (schedule_next_instance (sched_clock w) (sched_env w) a
                    (s\<lparr>alarms := Some (list_remove l a),
                       heap := (heap s)(a := (heap s a)\<lparr>prev_deadline := deadline (heap s a)\<rparr>)\<rparr>))
                 (\<lambda>v. Some (v\<lparr>heap := (heap v)(a := bump_rescheduled (heap v a))\<rparr>))
          else Some (s\<lparr>alarms := Some (list_remove l a)\<rparr>)) = Some s2"
    and s3: "reschedule_root_alarm (root_env w) s2 = Some s3"
    and qs: "fixed_queue_enqueue (queue (heap s3 a)) a (queues s3) = Some qs"
    and s': "s' = s3\<lparr>queues := qs\<rparr>"
    using assms(2) unfolding dispatch_wakeup_due [OF assms(1) due] a_def
    by (auto simp: bind_eq_Some_conv)
  have q2: "set (queues s2 k) \<subseteq> set (queues s k)"
  proof (cases "is_periodic (heap s a)")
    case False
    with s2 show ?thesis by auto
  next
    case True
    define u where "u = s\<lparr>alarms := Some (list_remove l a),
                       heap := (heap s)(a := (heap s a)\<lparr>prev_deadline := deadline (heap s a)\<rparr>)\<rparr>"
    from s2 True obtain v where
      v: "schedule_next_instance (sched_clock w) (sched_env w) a u = Some v"
      and s2eq: "s2 = v\<lparr>heap := (heap v)(a := bump_rescheduled (heap v a))\<rparr>"
      unfolding u_def by (auto simp: bind_eq_Some_conv)
    from schedule_next_instance_queues [OF v, of k] show ?thesis
      by (simp add: s2eq u_def)
  qed
  have q3: "queues s3 = queues s2"
    using reschedule_root_alarm_frame [OF s3] by simp
  from qs obtain k0 where "qs = (queues s3)(k0 := queues s3 k0 @ [a])"
    by (auto simp: fixed_queue_enqueue_def split: option.splits)
  then have "b \<in> set (queues s3 k) \<or> b = a"
    using assms(3) by (auto simp: s' split: if_splits)
  then have "b = a"
    using q2 q3 assms(4) by auto
  then show ?thesis
    using due by (simp add: a_def not_less)
qed

text \<open>
  Claim C6. On a wake-up of the dispatcher with the pending list empty or the front alarm's
  deadline after \<open>now\<close>, the dispatcher does what \<open>reschedule_root_alarm\<close> does and nothing
  else: it returns, and the pending list, the alarm records and all worker queues are as
  they were, so no callback is handed to a worker; in particular a post of the expiration
  signal that wakes an active dispatcher at such a moment enqueues nothing. And on any
  wake-up, an alarm that is in a worker queue afterwards and was not before is the front of
  the pending list, with a deadline that is not after \<open>now\<close>.
\<close>

theorem dispatcher_skips_not_due:
  assumes "alarms s = Some l"
  shows "(l = [] \<or> clock_ms (check_clock w) < deadline (heap s (hd l)) \<longrightarrow>
           dispatch_wakeup w s = reschedule_root_alarm (root_env w) s
         \<and> (\<exists>s'. dispatch_wakeup w s = Some s'
                \<and> alarms s' = alarms s \<and> heap s' = heap s \<and> queues s' = queues s)
         \<and> (dispatcher_thread_active s \<longrightarrow>
              (\<exists>s'. callback_dispatch [w] (timer_callback s) = Some s'
                \<and> alarms s' = alarms s \<and> heap s' = heap s \<and> queues s' = queues s)))
       \<and> (\<forall>s' k b. dispatch_wakeup w s = Some s'
              \<and> b \<in> set (queues s' k) \<and> b \<notin> set (queues s k) \<longrightarrow>
            l \<noteq> [] \<and> b = hd l \<and> deadline (heap s b) \<le> clock_ms (check_clock w))"
proof (intro conjI impI allI)
  assume nd: "l = [] \<or> clock_ms (check_clock w) < deadline (heap s (hd l))"
  show eq: "dispatch_wakeup w s = reschedule_root_alarm (root_env w) s"
    by (rule dispatch_wakeup_not_due [OF assms nd])
  obtain s' where s': "reschedule_root_alarm (root_env w) s = Some s'"
    using reschedule_root_alarm_total [OF assms] by blast
  show "\<exists>s'. dispatch_wakeup w s = Some s'
              \<and> alarms s' = alarms s \<and> heap s' = heap s \<and> queues s' = queues s"
    using eq s' reschedule_root_alarm_frame [OF s'] by simp
next
  assume nd: "l = [] \<or> clock_ms (check_clock w) < deadline (heap s (hd l))"
    and active: "dispatcher_thread_active s"
  define s0 where "s0 = (timer_callback s)\<lparr>alarm_expired := alarm_expired (timer_callback s) - 1\<rparr>"
  have s0: "alarms s0 = Some l" "heap s0 = heap s" "queues s0 = queues s"
      "dispatcher_thread_active s0"
    using assms active by (simp_all add: s0_def timer_callback_def)
  have due: "l = [] \<or> clock_ms (check_clock w) < deadline (heap s0 (hd l))"
    using nd s0 by simp
  obtain s' where s': "reschedule_root_alarm (root_env w) s0 = Some s'"
    using reschedule_root_alarm_total [OF s0(1)] by blast
  have "dispatch_wakeup w s0 = Some s'"
    using dispatch_wakeup_not_due [OF s0(1) due] s' by simp
  then have "callback_dispatch [w] (timer_callback s) = Some s'"
    using s0(4) by (simp add: s0_def Let_def timer_callback_def)
  then show "\<exists>s'. callback_dispatch [w] (timer_callback s) = Some s'
              \<and> alarms s' = alarms s \<and> heap s' = heap s \<and> queues s' = queues s"
    using reschedule_root_alarm_frame [OF s'] s0 assms by simp
next
  fix s' k b
  assume "dispatch_wakeup w s = Some s' \<and> b \<in> set (queues s' k) \<and> b \<notin> set (queues s k)"
  then have "l \<noteq> [] \<and> b = hd l \<and> deadline (heap s b) \<le> clock_ms (check_clock w)"
    using dispatch_wakeup_enqueues_front_only [OF assms] by blast
  then show "l \<noteq> []" and "b = hd l" and "deadline (heap s b) \<le> clock_ms (check_clock w)"
    by blast+
qed

theorem dispatcher_skips_not_due_witness:
  "\<exists>s'. callback_dispatch [\<lparr>check_clock = at_ms 50, sched_clock = at_ms 50,
                              sched_env = os_ok 50, root_env = os_ok 50\<rparr>]
           (timer_callback (pending_state [1] (all_alarms (armed_alarm False 0 100 100)))) = Some s'
       \<and> alarms s' = Some [1] \<and> queues s' 0 = [] \<and> callback (heap s' 1) = Some 7"
proof -
  define s where "s = pending_state [1] (all_alarms (armed_alarm False 0 100 100))"
  define w where "w = \<lparr>check_clock = at_ms 50, sched_clock = at_ms 50,
                              sched_env = os_ok 50, root_env = os_ok 50\<rparr>"
  have s: "alarms s = Some [1]" "dispatcher_thread_active s"
      "\<And>a. heap s a = armed_alarm False 0 100 100" "\<And>k. queues s k = []"
    by (simp_all add: s_def example_defs)
  have due: "[1] = [] \<or> clock_ms (check_clock w) < deadline (heap s (hd [1::nat]))"
    by (simp add: s w_def clock_ms_at_ms armed_alarm_def)
  from dispatcher_skips_not_due [OF s(1), of w] due s(2)
  have "\<exists>s'. callback_dispatch [w] (timer_callback s) = Some s'
      \<and> alarms s' = alarms s \<and> heap s' = heap s \<and> queues s' = queues s"
    by blast
  then show ?thesis
    unfolding s_def [symmetric] w_def [symmetric] by (auto simp: s armed_alarm_def)
qed

subsection \<open>A stale copy in a worker queue breaks the order\<close>

lemmas run_defs =
  exec_defs example_defs dispatch_wakeup_def alarm_queue_ready_def fixed_queue_try_dequeue_def
  fixed_queue_enqueue_def timer_callback_def bump_rescheduled_def pending_deadlines_def
  pending_list_sorted_def

text \<open>
  Claim C3 fails on the code. \<open>alarm_set_internal\<close> writes the new queue into the alarm (line
  238) before \<open>remove_pending_alarm\<close> drains the alarm's queue (line 392), so a copy that
  waits in the old queue survives a set on another queue; when the handler of the old queue
  takes it, it writes the deadline 0 into an alarm that is in the pending list. In the run
  \<open>stale_copy_run\<close> the list is then 2, 1 with the deadlines 150 and 0, and straight after
  the insertion of alarm 3 by \<open>schedule_next_instance\<close> it is 3, 2, 1 with the deadlines 110,
  150 and 0: not sorted.
\<close>

theorem stale_copy_unsorts_pending_list:
  "map_option alarms (run (butlast stale_copy_run) initialized_state) = Some (Some [2, 1])
   \<and> map_option pending_deadlines (run (butlast stale_copy_run) initialized_state)
       = Some [150, 0]
   \<and> map_option alarms (run stale_copy_run initialized_state) = Some (Some [3, 2, 1])
   \<and> map_option pending_deadlines (run stale_copy_run initialized_state)
       = Some [110, 150, 0]
   \<and> map_option pending_list_sorted (run stale_copy_run initialized_state) = Some False"
proof -
  have "run (butlast stale_copy_run) initialized_state \<noteq> None"
    by (simp add: stale_copy_run_def run_defs)
  then obtain u where u: "run (butlast stale_copy_run) initialized_state = Some u"
    by blast
  then have the_u: "u = the (run (butlast stale_copy_run) initialized_state)"
    by simp
  have before: "alarms u = Some [2, 1]" "pending_deadlines u = [150, 0]"
    unfolding the_u by (simp_all add: stale_copy_run_def run_defs)
  have "run stale_copy_run initialized_state \<noteq> None"
    by (simp add: stale_copy_run_def run_defs)
  then obtain s' where s': "run stale_copy_run initialized_state = Some s'"
    by blast
  then have the_s: "s' = the (run stale_copy_run initialized_state)"
    by simp
  have after: "alarms s' = Some [3, 2, 1]" "pending_deadlines s' = [110, 150, 0]"
      "\<not> pending_list_sorted s'"
    unfolding the_s by (simp_all add: stale_copy_run_def run_defs)
  show ?thesis
    unfolding u s' using before after by simp
qed

end
